theory Spec2Isabelle
  imports Complex_Main "HOL-Library.Mapping" "HOL-Library.AList_Mapping" "HOL-Library.Word"
begin

section \<open>Errors\<close>

text \<open>
  A failed \<^verbatim>\<open>assert\<close>, an access outside a vector and a \<^verbatim>\<open>std::length_error\<close> are
  branches of the model: the first aborts a debug build, the second is undefined behaviour
  in C++, the third is the exception of a \<^verbatim>\<open>resize\<close> beyond \<^verbatim>\<open>max_size()\<close>.
\<close>

datatype error = AssertionFailed | OutOfRange | LengthError

section \<open>BiMap (src/avogadro/core/bimap.cpp)\<close>

text \<open>
  \<^verbatim>\<open>std::map<size_t, size_t> m_elementToGroup\<close> is a finite mapping,
  \<^verbatim>\<open>std::vector<std::set<size_t>> m_groupToElement\<close> a list of sets.
\<close>

record BiMap =
  m_elementToGroup :: "(nat, nat) mapping"
  m_groupToElement :: "nat set list"

definition BiMap_new :: BiMap where
  "BiMap_new = \<lparr>m_elementToGroup = Mapping.empty, m_groupToElement = []\<rparr>"

text \<open>
  \<^verbatim>\<open>std::map::operator[]\<close> used as a read: a missing key is inserted with the
  value-initialised group \<open>0\<close>, and that \<open>0\<close> is what is read.
\<close>

definition subscript :: "(nat, nat) mapping \<Rightarrow> nat \<Rightarrow> nat \<times> (nat, nat) mapping" where
  "subscript m k =
     (case Mapping.lookup m k of
        Some v \<Rightarrow> (v, m)
      | None \<Rightarrow> (0, Mapping.update k 0 m))"

text \<open>\<^verbatim>\<open>vector::erase(std::next(begin(), i))\<close>: every later slot moves down by one.\<close>

definition erase_at :: "nat \<Rightarrow> 'a list \<Rightarrow> 'a list" where
  "erase_at i xs = take i xs @ drop (Suc i) xs"

definition addElement :: "BiMap \<Rightarrow> nat \<Rightarrow> BiMap" where
  "addElement s index =
     \<lparr>m_elementToGroup =
        Mapping.update index (length (m_groupToElement s)) (m_elementToGroup s),
      m_groupToElement = m_groupToElement s @ [{index}]\<rparr>"

text \<open>
  The body of the loop of \<^verbatim>\<open>addConection\<close>, run over the members of group \<open>group_b\<close>
  in ascending order (the iteration order of \<^verbatim>\<open>std::set\<close>).
\<close>

fun relabel :: "nat \<Rightarrow> nat list \<Rightarrow> BiMap \<Rightarrow> error + BiMap" where
  "relabel group_a [] s = Inr s"
| "relabel group_a (element # rest) s =
     (if group_a < length (m_groupToElement s)
      then relabel group_a rest
             \<lparr>m_elementToGroup = Mapping.update element group_a (m_elementToGroup s),
              m_groupToElement =
                (m_groupToElement s)[group_a := insert element (m_groupToElement s ! group_a)]\<rparr>
      else Inl OutOfRange)"

definition addConection :: "BiMap \<Rightarrow> nat \<Rightarrow> nat \<Rightarrow> error + BiMap" where
  "addConection s a b =
     (case Mapping.lookup (m_elementToGroup s) a of
        None \<Rightarrow> Inl AssertionFailed
      | Some group_a \<Rightarrow>
         (case Mapping.lookup (m_elementToGroup s) b of
            None \<Rightarrow> Inl AssertionFailed
          | Some group_b \<Rightarrow>
             if group_a \<noteq> group_b then
               if group_b < length (m_groupToElement s) then
                 (case relabel group_a (sorted_list_of_set (m_groupToElement s ! group_b)) s of
                    Inl e \<Rightarrow> Inl e
                  | Inr s' \<Rightarrow>
                      Inr (s'\<lparr>m_groupToElement := erase_at group_b (m_groupToElement s')\<rparr>))
               else Inl OutOfRange
             else Inr s))"

text \<open>\<^verbatim>\<open>removeConection(size_t index)\<close>: the one-argument overload.\<close>

definition removeConection :: "BiMap \<Rightarrow> nat \<Rightarrow> error + BiMap" where
  "removeConection s index =
     (if index < Mapping.size (m_elementToGroup s) then
        (case subscript (m_elementToGroup s) index of
           (grp, m) \<Rightarrow>
             if grp < length (m_groupToElement s) then
               if 1 < card (m_groupToElement s ! grp) then
                 Inr (addElement
                        \<lparr>m_elementToGroup = m,
                         m_groupToElement =
                           (m_groupToElement s)[grp := m_groupToElement s ! grp - {index}]\<rparr>
                        index)
               else Inr \<lparr>m_elementToGroup = m, m_groupToElement = m_groupToElement s\<rparr>
             else Inl OutOfRange)
      else Inl AssertionFailed)"

definition removeElement :: "BiMap \<Rightarrow> nat \<Rightarrow> error + BiMap" where
  "removeElement s index =
     (if index \<in> Mapping.keys (m_elementToGroup s) then
        (case removeConection s index of
           Inl e \<Rightarrow> Inl e
         | Inr s' \<Rightarrow>
            (case subscript (m_elementToGroup s') index of
               (grp, m) \<Rightarrow>
                 Inr \<lparr>m_elementToGroup = Mapping.delete grp m,
                      m_groupToElement = m_groupToElement s'\<rparr>))
      else Inl AssertionFailed)"

text \<open>\<^verbatim>\<open>std::set_intersection\<close> on two sorted ranges.\<close>

fun set_intersection :: "nat list \<Rightarrow> nat list \<Rightarrow> nat list" where
  "set_intersection (x # xs) (y # ys) =
     (if x < y then set_intersection xs (y # ys)
      else if y < x then set_intersection (x # xs) ys
      else x # set_intersection xs ys)"
| "set_intersection [] ys = []"
| "set_intersection xs [] = []"

text \<open>
  The loop of the four-argument \<^verbatim>\<open>removeConection\<close> over the sorted neighbours of \<open>a\<close>.
\<close>

fun migrate :: "nat \<Rightarrow> nat list \<Rightarrow> BiMap \<Rightarrow> error + BiMap" where
  "migrate grp [] s = Inr s"
| "migrate grp (n # ns) s =
     (case subscript (m_elementToGroup s) n of
        (oldGroup, m) \<Rightarrow>
          if oldGroup < length (m_groupToElement s) \<and> grp < length (m_groupToElement s)
          then migrate grp ns
                 \<lparr>m_elementToGroup = Mapping.update n grp m,
                  m_groupToElement =
                    ((m_groupToElement s)[oldGroup := m_groupToElement s ! oldGroup - {n}])
                      [grp := insert n
                         (((m_groupToElement s)[oldGroup := m_groupToElement s ! oldGroup - {n}])
                            ! grp)]\<rparr>
          else Inl OutOfRange)"

text \<open>
  \<^verbatim>\<open>removeConection(a, a_neighbors, b, b_neighbors)\<close>: the neighbour vectors are
  passed by value and sorted in place before they are intersected and iterated.
\<close>

definition removeConection_neighbors ::
  "BiMap \<Rightarrow> nat \<Rightarrow> nat list \<Rightarrow> nat \<Rightarrow> nat list \<Rightarrow> error + BiMap" where
  "removeConection_neighbors s a a_neighbors b b_neighbors =
     (if a \<in> Mapping.keys (m_elementToGroup s) \<and> b \<in> Mapping.keys (m_elementToGroup s) then
        (if length (set_intersection (sort a_neighbors) (sort b_neighbors)) = 0 then
           (case removeConection s a of
              Inl e \<Rightarrow> Inl e
            | Inr s' \<Rightarrow>
               (case subscript (m_elementToGroup s') a of
                  (grp, m) \<Rightarrow>
                    migrate grp (sort a_neighbors)
                      \<lparr>m_elementToGroup = m, m_groupToElement = m_groupToElement s'\<rparr>))
         else Inr s)
      else Inl AssertionFailed)"

definition getGroup :: "BiMap \<Rightarrow> nat \<Rightarrow> error + nat" where
  "getGroup s element =
     (case Mapping.lookup (m_elementToGroup s) element of
        None \<Rightarrow> Inl AssertionFailed
      | Some g \<Rightarrow> Inr g)"

definition getElements :: "BiMap \<Rightarrow> nat \<Rightarrow> error + nat set" where
  "getElements s grp =
     (if grp < length (m_groupToElement s) then Inr (m_groupToElement s ! grp)
      else Inl AssertionFailed)"

definition getAllGroups :: "BiMap \<Rightarrow> nat set list" where
  "getAllGroups s = m_groupToElement s"

subsection \<open>Sequences of calls\<close>

datatype call = AddElement nat | AddConection nat nat | RemoveElement nat

fun apply_call :: "BiMap \<Rightarrow> call \<Rightarrow> error + BiMap" where
  "apply_call s (AddElement i) = Inr (addElement s i)"
| "apply_call s (AddConection a b) = addConection s a b"
| "apply_call s (RemoveElement i) = removeElement s i"

fun run :: "BiMap \<Rightarrow> call list \<Rightarrow> error + BiMap" where
  "run s [] = Inr s"
| "run s (c # cs) = (case apply_call s c of Inl e \<Rightarrow> Inl e | Inr s' \<Rightarrow> run s' cs)"

subsection \<open>The representation invariant\<close>

text \<open>
  The two containers agree: every key of the element map is a member of the group it is
  mapped to, and every member of a group slot is mapped to that slot.
\<close>

definition consistent :: "BiMap \<Rightarrow> bool" where
  "consistent s \<longleftrightarrow>
     finite (Mapping.keys (m_elementToGroup s)) \<and>
     (\<forall>e \<in> Mapping.keys (m_elementToGroup s).
        case Mapping.lookup (m_elementToGroup s) e of
          None \<Rightarrow> False
        | Some g \<Rightarrow> g < length (m_groupToElement s) \<and> e \<in> m_groupToElement s ! g) \<and>
     (\<forall>g \<in> {0..<length (m_groupToElement s)}. \<forall>e \<in> m_groupToElement s ! g.
        Mapping.lookup (m_elementToGroup s) e = Some g)"

subsection \<open>Two concrete group maps\<close>

text \<open>Three elements in one group, as left by connecting \<open>0\<close>-\<open>1\<close>-\<open>2\<close> in a chain.\<close>

definition chain :: BiMap where
  "chain = \<lparr>m_elementToGroup =
               Mapping.update 2 0 (Mapping.update 1 0 (Mapping.update 0 0 Mapping.empty)),
             m_groupToElement = [{0, 1, 2}]\<rparr>"


section \<open>Molecule and its undo commands (src/avogadro/qtgui/rwmolecule.inl)\<close>

subsection \<open>The arrays the commands work on\<close>

text \<open>
  \<^verbatim>\<open>Index\<close> is \<^verbatim>\<open>size_t\<close>, modelled as \<open>nat\<close>; the one place where the code can
  wrap around (\<^verbatim>\<open>atomCount() - 1\<close> on an empty molecule) is written out.
  Modelled from the spec: \<^verbatim>\<open>MaxIndex\<close>, the sentinel "invalid" value of a removed
  UniqueId, declared outside the given sources; it is the largest \<^verbatim>\<open>size_t\<close>.
\<close>

definition MaxIndex :: nat where
  "MaxIndex = 2 ^ 64 - 1"

type_synonym Vector3 = "real \<times> real \<times> real"

definition Vector3_Zero :: Vector3 where
  "Vector3_Zero = (0, 0, 0)"

type_synonym Vector3ub = "8 word \<times> 8 word \<times> 8 word"

text \<open>
  The arrays that \<^verbatim>\<open>RWMolecule::UndoCommand\<close> exposes to its subclasses, and the flag
  set by \<^verbatim>\<open>setGraphDirty\<close>. \<^verbatim>\<open>AtomHybridization\<close> is an enumeration, kept as its
  integer value.
\<close>

record Molecule =
  atomUniqueIds :: "nat list"
  bondUniqueIds :: "nat list"
  positions3d :: "Vector3 list"
  hybridizations :: "int list"
  formalCharges :: "8 word list"
  colors :: "Vector3ub list"
  forceVectors :: "Vector3 list"
  atomicNumbers :: "8 word list"
  bondPairs :: "(nat \<times> nat) list"
  bondOrders :: "8 word list"
  graphDirty :: bool

text \<open>
  \<^verbatim>\<open>Array::resize(n, v)\<close> and \<^verbatim>\<open>swap(a[i], a.back())\<close>. No vector holds \<open>MaxIndex\<close>
  elements (\<^verbatim>\<open>max_size()\<close> is smaller), so a resize to the wrapped-around count
  \<open>MaxIndex\<close> throws \<^verbatim>\<open>std::length_error\<close>; every other count the commands pass is a
  count of elements minus one.
\<close>

definition resize :: "nat \<Rightarrow> 'a \<Rightarrow> 'a list \<Rightarrow> error + 'a list" where
  "resize n v xs =
     (if n < MaxIndex then Inr (take n xs @ replicate (n - length xs) v)
      else Inl LengthError)"

definition swap_with_back :: "nat \<Rightarrow> 'a list \<Rightarrow> 'a list" where
  "swap_with_back i xs = xs[i := last xs, length xs - 1 := xs ! i]"

text \<open>
  Modelled from the spec: \<^verbatim>\<open>atomCount\<close>, \<^verbatim>\<open>bondCount\<close>, \<^verbatim>\<open>RWMolecule::bonds(atomId)\<close>
  and \<^verbatim>\<open>RWMolecule::atomUniqueId(atomId)\<close>, which the commands call and which are
  defined outside the given sources. Positions are the contiguous range up to the count;
  the bonds of an atom are the bonds referencing its position, in ascending bond
  position; the UniqueId of a position is the first identifier bound to it, and
  \<open>MaxIndex\<close> when there is none.
\<close>

definition atomCount :: "Molecule \<Rightarrow> nat" where
  "atomCount mol = length (atomicNumbers mol)"

definition bondCount :: "Molecule \<Rightarrow> nat" where
  "bondCount mol = length (bondPairs mol)"

definition bonds :: "Molecule \<Rightarrow> nat \<Rightarrow> nat list" where
  "bonds mol atomId =
     filter (\<lambda>i. fst (bondPairs mol ! i) = atomId \<or> snd (bondPairs mol ! i) = atomId)
       [0..<bondCount mol]"

definition findUniqueId :: "nat list \<Rightarrow> nat \<Rightarrow> nat" where
  "findUniqueId ids pos =
     (if pos \<in> set ids then length (takeWhile (\<lambda>p. p \<noteq> pos) ids) else MaxIndex)"

definition atomUniqueId :: "Molecule \<Rightarrow> nat \<Rightarrow> nat" where
  "atomUniqueId mol atomId = findUniqueId (atomUniqueIds mol) atomId"

definition bondUniqueId :: "Molecule \<Rightarrow> nat \<Rightarrow> nat" where
  "bondUniqueId mol bondId = findUniqueId (bondUniqueIds mol) bondId"

text \<open>
  \<^verbatim>\<open>makeBondPair\<close>: the pair with the lower index first.
\<close>

definition makeBondPair :: "nat \<Rightarrow> nat \<Rightarrow> nat \<times> nat" where
  "makeBondPair a b = (if a < b then (a, b) else (b, a))"


definition Molecule_addBond :: "Molecule \<Rightarrow> nat \<Rightarrow> nat \<Rightarrow> 8 word \<Rightarrow> Molecule" where
  "Molecule_addBond mol a b order =
     mol\<lparr>bondUniqueIds := bondUniqueIds mol @ [bondCount mol],
         bondPairs := bondPairs mol @ [makeBondPair a b],
         bondOrders := bondOrders mol @ [order],
         graphDirty := True\<rparr>"

definition Molecule_removeBond :: "Molecule \<Rightarrow> nat \<Rightarrow> error + Molecule" where
  "Molecule_removeBond mol bondId =
     (if bondId < bondCount mol \<and> bondCount mol = length (bondOrders mol) \<and>
         bondUniqueId mol bondId < length (bondUniqueIds mol)
      then
        (let uid = bondUniqueId mol bondId;
             lastId = bondCount mol - 1;
             mol1 = mol\<lparr>bondUniqueIds := (bondUniqueIds mol)[uid := MaxIndex]\<rparr>;
             mol2 =
               (if bondId \<noteq> lastId then
                  mol1\<lparr>bondPairs := (bondPairs mol1)[bondId := last (bondPairs mol1)],
                       bondOrders := (bondOrders mol1)[bondId := last (bondOrders mol1)],
                       bondUniqueIds :=
                         (bondUniqueIds mol1)[bondUniqueId mol1 lastId := bondId]\<rparr>
                else mol1)
         in Inr (mol2\<lparr>bondPairs := take lastId (bondPairs mol2),
                       bondOrders := take lastId (bondOrders mol2),
                       graphDirty := True\<rparr>))
      else Inl AssertionFailed)"

subsection \<open>AddAtomCommand\<close>


subsection \<open>RemoveAtomCommand\<close>

text \<open>
  The loop over \<^verbatim>\<open>atomBonds\<close> shared by \<^verbatim>\<open>redo\<close> and \<^verbatim>\<open>undo\<close>: in every listed bond
  the first endpoint is replaced when it equals \<open>oldId\<close>, otherwise the second.
\<close>

fun rewrite_bonds :: "nat list \<Rightarrow> nat \<Rightarrow> nat \<Rightarrow> (nat \<times> nat) list \<Rightarrow> (nat \<times> nat) list" where
  "rewrite_bonds [] oldId newId ps = ps"
| "rewrite_bonds (i # rest) oldId newId ps =
     rewrite_bonds rest oldId newId
       (ps[i := (if fst (ps ! i) = oldId then (newId, snd (ps ! i)) else (fst (ps ! i), newId))])"

text \<open>
  The branch \<^verbatim>\<open>if (m_atomId != movedId)\<close> of \<^verbatim>\<open>RemoveAtomCommand::redo\<close>.
\<close>

definition move_last :: "nat \<Rightarrow> nat \<Rightarrow> Molecule \<Rightarrow> error + Molecule" where
  "move_last m_atomId movedId mol =
     (if atomicNumbers mol \<noteq> [] \<and> m_atomId < length (atomicNumbers mol) then
        (let mol1 = mol\<lparr>atomicNumbers := (atomicNumbers mol)[m_atomId := last (atomicNumbers mol)]\<rparr>;
             mol2 =
               (if length (positions3d mol1) = length (atomicNumbers mol1)
                then mol1\<lparr>positions3d := (positions3d mol1)[m_atomId := last (positions3d mol1)]\<rparr>
                else mol1);
             mol3 = mol2\<lparr>bondPairs :=
                      rewrite_bonds (bonds mol2 movedId) movedId m_atomId (bondPairs mol2)\<rparr>;
             movedUid = atomUniqueId mol3 movedId
         in if movedUid \<noteq> MaxIndex then
              if movedUid < length (atomUniqueIds mol3)
              then Inr (mol3\<lparr>atomUniqueIds := (atomUniqueIds mol3)[movedUid := m_atomId]\<rparr>)
              else Inl OutOfRange
            else Inl AssertionFailed)
      else Inl OutOfRange)"

text \<open>
  \<^verbatim>\<open>RemoveAtomCommand::redo\<close>; the arguments are the members \<^verbatim>\<open>m_atomId\<close> and
  \<^verbatim>\<open>m_atomUid\<close>.
\<close>

definition RemoveAtomCommand_redo :: "nat \<Rightarrow> nat \<Rightarrow> Molecule \<Rightarrow> error + Molecule" where
  "RemoveAtomCommand_redo m_atomId m_atomUid mol =
     (if m_atomUid < length (atomUniqueIds mol) then
        (let mol1 = mol\<lparr>atomUniqueIds := (atomUniqueIds mol)[m_atomUid := MaxIndex]\<rparr>;
             movedId = (if atomCount mol1 = 0 then MaxIndex else atomCount mol1 - 1)
         in case (if m_atomId \<noteq> movedId then move_last m_atomId movedId mol1 else Inr mol1) of
              Inl e \<Rightarrow> Inl e
            | Inr mol2 \<Rightarrow>
               (case (if length (positions3d mol2) = length (atomicNumbers mol2)
                      then resize movedId Vector3_Zero (positions3d mol2)
                      else Inr (positions3d mol2)) of
                  Inl e \<Rightarrow> Inl e
                | Inr ps \<Rightarrow>
                   (case resize movedId 0 (atomicNumbers mol2) of
                      Inl e \<Rightarrow> Inl e
                    | Inr ns \<Rightarrow>
                        Inr (mol2\<lparr>positions3d := ps, atomicNumbers := ns,
                                  graphDirty := True\<rparr>))))
      else Inl AssertionFailed)"

text \<open>
  The branch \<^verbatim>\<open>if (m_atomId != movedId)\<close> of \<^verbatim>\<open>RemoveAtomCommand::undo\<close>.
\<close>

definition swap_back :: "nat \<Rightarrow> nat \<Rightarrow> Molecule \<Rightarrow> error + Molecule" where
  "swap_back m_atomId movedId mol =
     (if m_atomId < length (atomicNumbers mol) then
        (let mol1 =
               (if length (positions3d mol) = length (atomicNumbers mol)
                then mol\<lparr>positions3d := swap_with_back m_atomId (positions3d mol)\<rparr>
                else mol);
             mol2 = mol1\<lparr>atomicNumbers := swap_with_back m_atomId (atomicNumbers mol1)\<rparr>;
             mol3 = mol2\<lparr>bondPairs :=
                      rewrite_bonds (bonds mol2 m_atomId) m_atomId movedId (bondPairs mol2)\<rparr>;
             movedUid = atomUniqueId mol3 m_atomId
         in if movedUid \<noteq> MaxIndex then
              if movedUid < length (atomUniqueIds mol3)
              then Inr (mol3\<lparr>atomUniqueIds := (atomUniqueIds mol3)[movedUid := movedId]\<rparr>)
              else Inl OutOfRange
            else Inl AssertionFailed)
      else Inl OutOfRange)"

text \<open>
  \<^verbatim>\<open>RemoveAtomCommand::undo\<close>; the arguments are the members \<^verbatim>\<open>m_atomId\<close>,
  \<^verbatim>\<open>m_atomUid\<close>, \<^verbatim>\<open>m_atomicNumber\<close> and \<^verbatim>\<open>m_position3d\<close>.
\<close>

definition RemoveAtomCommand_undo ::
  "nat \<Rightarrow> nat \<Rightarrow> 8 word \<Rightarrow> Vector3 \<Rightarrow> Molecule \<Rightarrow> error + Molecule" where
  "RemoveAtomCommand_undo m_atomId m_atomUid m_atomicNumber m_position3d mol =
     (let mol1 =
            (if length (positions3d mol) = length (atomicNumbers mol)
             then mol\<lparr>positions3d := positions3d mol @ [m_position3d]\<rparr>
             else mol);
          mol2 = mol1\<lparr>atomicNumbers := atomicNumbers mol1 @ [m_atomicNumber]\<rparr>;
          movedId = atomCount mol2 - 1
      in case (if m_atomId \<noteq> movedId then swap_back m_atomId movedId mol2 else Inr mol2) of
           Inl e \<Rightarrow> Inl e
         | Inr mol3 \<Rightarrow>
             if m_atomUid < length (atomUniqueIds mol3)
             then Inr (mol3\<lparr>atomUniqueIds := (atomUniqueIds mol3)[m_atomUid := m_atomId],
                            graphDirty := True\<rparr>)
             else Inl OutOfRange)"

subsection \<open>RemoveBondCommand\<close>

text \<open>
  \<^verbatim>\<open>RemoveBondCommand::redo\<close> and \<^verbatim>\<open>::undo\<close>; the arguments are the members
  \<^verbatim>\<open>m_bondId\<close>, \<^verbatim>\<open>m_bondPair\<close> and \<^verbatim>\<open>m_bondOrder\<close> (\<^verbatim>\<open>m_bondUid\<close> is stored and not used).
\<close>

definition RemoveBondCommand_redo :: "nat \<Rightarrow> Molecule \<Rightarrow> error + Molecule" where
  "RemoveBondCommand_redo m_bondId mol = Molecule_removeBond mol m_bondId"

definition RemoveBondCommand_undo :: "nat \<times> nat \<Rightarrow> 8 word \<Rightarrow> Molecule \<Rightarrow> error + Molecule" where
  "RemoveBondCommand_undo m_bondPair m_bondOrder mol =
     Inr (Molecule_addBond mol (fst m_bondPair) (snd m_bondPair) m_bondOrder)"

subsection \<open>The set-attribute commands\<close>

text \<open>
  A store into one slot of an array, \<^verbatim>\<open>array[i] = v\<close>, and the loop of the multi-atom
  commands, \<^verbatim>\<open>for (i = 0; i < m_atomIds.size(); ++i) array[m_atomIds[i]] = values[i]\<close>.
\<close>

definition store :: "nat \<Rightarrow> 'a \<Rightarrow> 'a list \<Rightarrow> error + 'a list" where
  "store i v xs = (if i < length xs then Inr (xs[i := v]) else Inl OutOfRange)"

fun store_loop :: "nat list \<Rightarrow> 'a list \<Rightarrow> 'a list \<Rightarrow> error + 'a list" where
  "store_loop [] vals arr = Inr arr"
| "store_loop (atomId # ids) [] arr = Inl OutOfRange"
| "store_loop (atomId # ids) (v # vals) arr =
     (if atomId < length arr then store_loop ids vals (arr[atomId := v]) else Inl OutOfRange)"

text \<open>
  The commands whose \<^verbatim>\<open>redo\<close> and \<^verbatim>\<open>undo\<close> work on the arrays directly, as a tagged
  union; the arguments of each constructor are the members of the class in the order of
  their declaration.
\<close>

datatype UndoCommand =
    RemoveAtomCommand nat nat "8 word" Vector3
  | SetAtomicNumbersCommand "8 word list" "8 word list"
  | SetAtomicNumberCommand nat "8 word" "8 word"
  | SetPositions3dCommand "Vector3 list" "Vector3 list"
  | SetPosition3dCommand "nat list" "Vector3 list" "Vector3 list"
  | SetAtomHybridizationCommand nat int int
  | SetAtomFormalChargeCommand nat "8 word" "8 word"
  | SetAtomColorCommand nat Vector3ub Vector3ub
  | SetForceVectorCommand "nat list" "Vector3 list" "Vector3 list"

fun redo :: "UndoCommand \<Rightarrow> Molecule \<Rightarrow> error + Molecule" where
  "redo (RemoveAtomCommand m_atomId m_atomUid m_atomicNumber m_position3d) mol =
     RemoveAtomCommand_redo m_atomId m_atomUid mol"
| "redo (SetAtomicNumbersCommand m_oldAtomicNumbers m_newAtomicNumbers) mol =
     Inr (mol\<lparr>atomicNumbers := m_newAtomicNumbers\<rparr>)"
| "redo (SetAtomicNumberCommand m_atomId m_oldAtomicNumber m_newAtomicNumber) mol =
     (case store m_atomId m_newAtomicNumber (atomicNumbers mol) of
        Inl e \<Rightarrow> Inl e | Inr xs \<Rightarrow> Inr (mol\<lparr>atomicNumbers := xs\<rparr>))"
| "redo (SetPositions3dCommand m_oldPositions3d m_newPositions3d) mol =
     Inr (mol\<lparr>positions3d := m_newPositions3d\<rparr>)"
| "redo (SetPosition3dCommand m_atomIds m_oldPosition3ds m_newPosition3ds) mol =
     (case store_loop m_atomIds m_newPosition3ds (positions3d mol) of
        Inl e \<Rightarrow> Inl e | Inr xs \<Rightarrow> Inr (mol\<lparr>positions3d := xs\<rparr>))"
| "redo (SetAtomHybridizationCommand m_atomId m_oldHybridization m_newHybridization) mol =
     (case store m_atomId m_newHybridization (hybridizations mol) of
        Inl e \<Rightarrow> Inl e | Inr xs \<Rightarrow> Inr (mol\<lparr>hybridizations := xs\<rparr>))"
| "redo (SetAtomFormalChargeCommand m_atomId m_oldCharge m_newCharge) mol =
     (case store m_atomId m_newCharge (formalCharges mol) of
        Inl e \<Rightarrow> Inl e | Inr xs \<Rightarrow> Inr (mol\<lparr>formalCharges := xs\<rparr>))"
| "redo (SetAtomColorCommand m_atomId m_oldColor m_newColor) mol =
     (case store m_atomId m_newColor (colors mol) of
        Inl e \<Rightarrow> Inl e | Inr xs \<Rightarrow> Inr (mol\<lparr>colors := xs\<rparr>))"
| "redo (SetForceVectorCommand m_atomIds m_oldForceVectors m_newForceVectors) mol =
     (case store_loop m_atomIds m_newForceVectors (forceVectors mol) of
        Inl e \<Rightarrow> Inl e | Inr xs \<Rightarrow> Inr (mol\<lparr>forceVectors := xs\<rparr>))"

fun undo :: "UndoCommand \<Rightarrow> Molecule \<Rightarrow> error + Molecule" where
  "undo (RemoveAtomCommand m_atomId m_atomUid m_atomicNumber m_position3d) mol =
     RemoveAtomCommand_undo m_atomId m_atomUid m_atomicNumber m_position3d mol"
| "undo (SetAtomicNumbersCommand m_oldAtomicNumbers m_newAtomicNumbers) mol =
     Inr (mol\<lparr>atomicNumbers := m_oldAtomicNumbers\<rparr>)"
| "undo (SetAtomicNumberCommand m_atomId m_oldAtomicNumber m_newAtomicNumber) mol =
     (case store m_atomId m_oldAtomicNumber (atomicNumbers mol) of
        Inl e \<Rightarrow> Inl e | Inr xs \<Rightarrow> Inr (mol\<lparr>atomicNumbers := xs\<rparr>))"
| "undo (SetPositions3dCommand m_oldPositions3d m_newPositions3d) mol =
     Inr (mol\<lparr>positions3d := m_oldPositions3d\<rparr>)"
| "undo (SetPosition3dCommand m_atomIds m_oldPosition3ds m_newPosition3ds) mol =
     (case store_loop m_atomIds m_oldPosition3ds (positions3d mol) of
        Inl e \<Rightarrow> Inl e | Inr xs \<Rightarrow> Inr (mol\<lparr>positions3d := xs\<rparr>))"
| "undo (SetAtomHybridizationCommand m_atomId m_oldHybridization m_newHybridization) mol =
     (case store m_atomId m_oldHybridization (hybridizations mol) of
        Inl e \<Rightarrow> Inl e | Inr xs \<Rightarrow> Inr (mol\<lparr>hybridizations := xs\<rparr>))"
| "undo (SetAtomFormalChargeCommand m_atomId m_oldCharge m_newCharge) mol =
     (case store m_atomId m_oldCharge (formalCharges mol) of
        Inl e \<Rightarrow> Inl e | Inr xs \<Rightarrow> Inr (mol\<lparr>formalCharges := xs\<rparr>))"
| "undo (SetAtomColorCommand m_atomId m_oldColor m_newColor) mol =
     (case store m_atomId m_oldColor (colors mol) of
        Inl e \<Rightarrow> Inl e | Inr xs \<Rightarrow> Inr (mol\<lparr>colors := xs\<rparr>))"
| "undo (SetForceVectorCommand m_atomIds m_oldForceVectors m_newForceVectors) mol =
     (case store_loop m_atomIds m_oldForceVectors (forceVectors mol) of
        Inl e \<Rightarrow> Inl e | Inr xs \<Rightarrow> Inr (mol\<lparr>forceVectors := xs\<rparr>))"

subsection \<open>Merging\<close>

text \<open>
  The loop of \<^verbatim>\<open>SetPosition3dCommand::mergeWith\<close> and of
  \<^verbatim>\<open>SetForceVectorCommand::mergeWith\<close> (the two bodies are the same text): the first three
  arguments are the arrays of the incoming command, walked by the index \<open>i\<close>; the triple is
  the three arrays of \<^verbatim>\<open>this\<close>. \<^verbatim>\<open>std::find\<close> returns the first match.
\<close>

fun merge_entries ::
  "nat list \<Rightarrow> 'a list \<Rightarrow> 'a list \<Rightarrow> nat list \<times> 'a list \<times> 'a list \<Rightarrow>
     error + nat list \<times> 'a list \<times> 'a list" where
  "merge_entries (atomId # ids) (oldPos # olds) (newPos # news) (m_atomIds, m_old, m_new) =
     (if atomId \<notin> set m_atomIds then
        merge_entries ids olds news (m_atomIds @ [atomId], m_old @ [oldPos], m_new @ [newPos])
      else
        (let offset = length (takeWhile (\<lambda>a. a \<noteq> atomId) m_atomIds)
         in if offset < length m_new
            then merge_entries ids olds news (m_atomIds, m_old, m_new[offset := newPos])
            else Inl OutOfRange))"
| "merge_entries ids olds news this = Inr this"

text \<open>
  \<^verbatim>\<open>mergeWith\<close>: the result is the returned flag and \<^verbatim>\<open>this\<close> after the call. The
  \<^verbatim>\<open>dynamic_cast\<close> is the match on the constructor of the incoming command; a command
  without an override inherits \<^verbatim>\<open>QUndoCommand::mergeWith\<close>, which returns false.
\<close>

fun mergeWith :: "UndoCommand \<Rightarrow> UndoCommand \<Rightarrow> error + bool \<times> UndoCommand" where
  "mergeWith (SetPositions3dCommand m_old m_new) (SetPositions3dCommand o_old o_new) =
     Inr (True, SetPositions3dCommand m_old o_new)"
| "mergeWith (SetPosition3dCommand m_atomIds m_old m_new)
             (SetPosition3dCommand o_atomIds o_old o_new) =
     (if length o_atomIds \<noteq> length o_old \<or> length o_atomIds \<noteq> length o_new
      then Inr (False, SetPosition3dCommand m_atomIds m_old m_new)
      else
        (case merge_entries o_atomIds o_old o_new (m_atomIds, m_old, m_new) of
           Inl e \<Rightarrow> Inl e
         | Inr (ids, olds, news) \<Rightarrow> Inr (True, SetPosition3dCommand ids olds news)))"
| "mergeWith (SetForceVectorCommand m_atomIds m_old m_new)
             (SetForceVectorCommand o_atomIds o_old o_new) =
     (if length o_atomIds \<noteq> length o_old \<or> length o_atomIds \<noteq> length o_new
      then Inr (False, SetForceVectorCommand m_atomIds m_old m_new)
      else
        (case merge_entries o_atomIds o_old o_new (m_atomIds, m_old, m_new) of
           Inl e \<Rightarrow> Inl e
         | Inr (ids, olds, news) \<Rightarrow> Inr (True, SetForceVectorCommand ids olds news)))"
| "mergeWith this other = Inr (False, this)"

subsection \<open>Notions used to state the properties\<close>

text \<open>
  What one pass of the loop over \<^verbatim>\<open>atomBonds\<close> does to a bond pair, and when a pair
  references an atom position.
\<close>

definition rewrite_endpoint :: "nat \<Rightarrow> nat \<Rightarrow> nat \<times> nat \<Rightarrow> nat \<times> nat" where
  "rewrite_endpoint oldId newId pr =
     (if fst pr = oldId then (newId, snd pr) else (fst pr, newId))"

definition references :: "nat \<Rightarrow> nat \<times> nat \<Rightarrow> bool" where
  "references atomId pr \<longleftrightarrow> fst pr = atomId \<or> snd pr = atomId"


text \<open>
  The state in which a \<^verbatim>\<open>RemoveAtomCommand\<close> is pushed for the atom at \<open>m_atomId\<close>: the
  command holds the atom's UniqueId, atomic number and (when there are coordinates) its
  position; the atom's bonds have been removed before; every position has a UniqueId and
  \<open>m_atomUid\<close> is the only one bound to \<open>m_atomId\<close>; the coordinates are parallel to the
  atomic numbers, or absent with at least two atoms.
\<close>

definition removes_atom :: "nat \<Rightarrow> nat \<Rightarrow> 8 word \<Rightarrow> Vector3 \<Rightarrow> Molecule \<Rightarrow> bool" where
  "removes_atom m_atomId m_atomUid m_atomicNumber m_position3d mol \<longleftrightarrow>
     m_atomId < atomCount mol \<and> atomCount mol \<le> MaxIndex \<and>
     m_atomUid < length (atomUniqueIds mol) \<and> length (atomUniqueIds mol) \<le> MaxIndex \<and>
     atomUniqueIds mol ! m_atomUid = m_atomId \<and>
     atomCount mol - 1 \<in> set (atomUniqueIds mol) \<and>
     (\<forall>u \<in> {0..<length (atomUniqueIds mol)}.
        atomUniqueIds mol ! u = m_atomId \<longrightarrow> u = m_atomUid) \<and>
     m_atomicNumber = atomicNumbers mol ! m_atomId \<and>
     (if length (positions3d mol) = atomCount mol
      then m_position3d = positions3d mol ! m_atomId
      else positions3d mol = [] \<and> 2 \<le> atomCount mol) \<and>
     (\<forall>pr \<in> set (bondPairs mol). \<not> references m_atomId pr)"

text \<open>
  A multi-atom command that holds, for distinct atoms in range, the current values of the
  array as its "before" values.
\<close>

definition records_array :: "nat list \<Rightarrow> 'a list \<Rightarrow> 'a list \<Rightarrow> 'a list \<Rightarrow> bool" where
  "records_array ids olds news arr \<longleftrightarrow>
     length olds = length ids \<and> length news = length ids \<and> distinct ids \<and>
     (\<forall>i \<in> {0..<length ids}. ids ! i < length arr \<and> olds ! i = arr ! (ids ! i))"

text \<open>The command holds the current state of the molecule as its "before" state.\<close>

fun captured :: "UndoCommand \<Rightarrow> Molecule \<Rightarrow> bool" where
  "captured (RemoveAtomCommand m_atomId m_atomUid m_atomicNumber m_position3d) mol =
     removes_atom m_atomId m_atomUid m_atomicNumber m_position3d mol"
| "captured (SetAtomicNumbersCommand m_old m_new) mol = (m_old = atomicNumbers mol)"
| "captured (SetAtomicNumberCommand m_atomId m_old m_new) mol =
     (m_atomId < length (atomicNumbers mol) \<and> m_old = atomicNumbers mol ! m_atomId)"
| "captured (SetPositions3dCommand m_old m_new) mol = (m_old = positions3d mol)"
| "captured (SetPosition3dCommand m_atomIds m_old m_new) mol =
     records_array m_atomIds m_old m_new (positions3d mol)"
| "captured (SetAtomHybridizationCommand m_atomId m_old m_new) mol =
     (m_atomId < length (hybridizations mol) \<and> m_old = hybridizations mol ! m_atomId)"
| "captured (SetAtomFormalChargeCommand m_atomId m_old m_new) mol =
     (m_atomId < length (formalCharges mol) \<and> m_old = formalCharges mol ! m_atomId)"
| "captured (SetAtomColorCommand m_atomId m_old m_new) mol =
     (m_atomId < length (colors mol) \<and> m_old = colors mol ! m_atomId)"
| "captured (SetForceVectorCommand m_atomIds m_old m_new) mol =
     records_array m_atomIds m_old m_new (forceVectors mol)"

text \<open>
  The three arrays \<open>ids\<close>, \<open>olds\<close>, \<open>news\<close> are the arrays \<open>m_ids\<close>, \<open>m_old\<close>, \<open>m_new\<close> with
  the incoming \<open>o_ids\<close>, \<open>o_old\<close>, \<open>o_new\<close> merged in: the recorded entries keep their
  places and their "before" values, the atoms not yet recorded are appended in their
  order; as maps from atoms to values, an incoming "after" value overrides a recorded
  one, and a recorded "before" value overrides an incoming one.
\<close>

definition merged ::
  "nat list \<Rightarrow> 'a list \<Rightarrow> 'a list \<Rightarrow> nat list \<Rightarrow> 'a list \<Rightarrow> 'a list \<Rightarrow>
     nat list \<Rightarrow> 'a list \<Rightarrow> 'a list \<Rightarrow> bool" where
  "merged m_ids m_old m_new o_ids o_old o_new ids olds news \<longleftrightarrow>
     ids = m_ids @ filter (\<lambda>a. a \<notin> set m_ids) o_ids \<and>
     length olds = length ids \<and> length news = length ids \<and> distinct ids \<and>
     take (length m_ids) olds = m_old \<and>
     map_of (zip ids olds) = map_of (zip o_ids o_old) ++ map_of (zip m_ids m_old) \<and>
     map_of (zip ids news) = map_of (zip m_ids m_new) ++ map_of (zip o_ids o_new)"

text \<open>
  The constructors of the two multi-atom commands: one atom with its old and new value.
\<close>

definition SetPosition3dCommand_new :: "nat \<Rightarrow> Vector3 \<Rightarrow> Vector3 \<Rightarrow> UndoCommand" where
  "SetPosition3dCommand_new atomId oldPosition3d newPosition3d =
     SetPosition3dCommand [atomId] [oldPosition3d] [newPosition3d]"

definition SetForceVectorCommand_new :: "nat \<Rightarrow> Vector3 \<Rightarrow> Vector3 \<Rightarrow> UndoCommand" where
  "SetForceVectorCommand_new atomId oldForceVector newForceVector =
     SetForceVectorCommand [atomId] [oldForceVector] [newForceVector]"

text \<open>
  The three arrays of a multi-atom command are parallel and no atom is recorded twice;
  the constructor establishes this and \<^verbatim>\<open>mergeWith\<close> keeps it.
\<close>

definition well_formed_entries :: "nat list \<Rightarrow> 'a list \<Rightarrow> 'a list \<Rightarrow> bool" where
  "well_formed_entries ids olds news \<longleftrightarrow>
     length olds = length ids \<and> length news = length ids \<and> distinct ids"

subsection \<open>Concrete molecules\<close>

definition Molecule_new :: Molecule where
  "Molecule_new =
     \<lparr>atomUniqueIds = [], bondUniqueIds = [], positions3d = [], hybridizations = [],
      formalCharges = [], colors = [], forceVectors = [], atomicNumbers = [],
      bondPairs = [], bondOrders = [], graphDirty = False\<rparr>"

text \<open>One carbon atom without coordinates.\<close>

definition one_atom :: Molecule where
  "one_atom = Molecule_new\<lparr>atomUniqueIds := [0], atomicNumbers := [6]\<rparr>"

text \<open>Three atoms without coordinates and the bonds \<open>0\<close>-\<open>1\<close> and \<open>1\<close>-\<open>2\<close>.\<close>

definition two_bonds :: Molecule where
  "two_bonds =
     Molecule_new\<lparr>atomUniqueIds := [0, 1, 2], atomicNumbers := [6, 8, 1],
       bondUniqueIds := [0, 1], bondPairs := [(0, 1), (1, 2)], bondOrders := [1, 2]\<rparr>"

text \<open>
  Four atoms with coordinates and all per-atom columns filled, and one bond \<open>2\<close>-\<open>3\<close>;
  atom \<open>0\<close> has no bond.
\<close>

definition four_atoms :: Molecule where
  "four_atoms =
     Molecule_new\<lparr>atomUniqueIds := [0, 1, 2, 3], atomicNumbers := [1, 6, 7, 8],
       positions3d := [(0, 0, 0), (1, 0, 0), (2, 0, 0), (3, 0, 0)],
       hybridizations := [0, 1, 2, 3], formalCharges := [0, 0, 0, 1],
       colors := [(255, 255, 255), (0, 0, 0), (0, 0, 255), (255, 0, 0)],
       forceVectors := [(0, 0, 0), (0, 0, 0), (0, 0, 0), (0, 0, 1)],
       bondUniqueIds := [0], bondPairs := [(2, 3)], bondOrders := [1]\<rparr>"

section \<open>BiMap: properties\<close>

subsection \<open>Auxiliary facts\<close>

lemma consistentD1:
  "consistent s \<Longrightarrow> Mapping.lookup (m_elementToGroup s) e = Some g \<Longrightarrow>
     g < length (m_groupToElement s) \<and> e \<in> m_groupToElement s ! g"
  by (auto simp: consistent_def keys_dom_lookup split: option.splits)

lemma consistentD2:
  "consistent s \<Longrightarrow> g < length (m_groupToElement s) \<Longrightarrow> e \<in> m_groupToElement s ! g \<Longrightarrow>
     Mapping.lookup (m_elementToGroup s) e = Some g"
  by (auto simp: consistent_def)

lemma consistentI:
  assumes fin: "finite (Mapping.keys (m_elementToGroup s))"
    and fwd: "\<And>e g. Mapping.lookup (m_elementToGroup s) e = Some g \<Longrightarrow>
           g < length (m_groupToElement s) \<and> e \<in> m_groupToElement s ! g"
    and bwd: "\<And>e g. g < length (m_groupToElement s) \<Longrightarrow> e \<in> m_groupToElement s ! g \<Longrightarrow>
           Mapping.lookup (m_elementToGroup s) e = Some g"
  shows "consistent s"
  unfolding consistent_def
proof (intro conjI ballI)
  show "finite (Mapping.keys (m_elementToGroup s))" by (rule fin)
next
  fix e
  assume "e \<in> Mapping.keys (m_elementToGroup s)"
  then obtain g where g: "Mapping.lookup (m_elementToGroup s) e = Some g"
    by (auto simp: keys_dom_lookup)
  from fwd [OF g] g
  show "case Mapping.lookup (m_elementToGroup s) e of
          None \<Rightarrow> False
        | Some g \<Rightarrow> g < length (m_groupToElement s) \<and> e \<in> m_groupToElement s ! g"
    by simp
next
  fix g e
  assume "g \<in> {0..<length (m_groupToElement s)}" and "e \<in> m_groupToElement s ! g"
  then show "Mapping.lookup (m_elementToGroup s) e = Some g"
    using bwd [of g e] by simp
qed

lemma consistent_finite_group:
  assumes "consistent s" and "g < length (m_groupToElement s)"
  shows "finite (m_groupToElement s ! g)"
proof -
  have "m_groupToElement s ! g \<subseteq> Mapping.keys (m_elementToGroup s)"
    using assms by (auto simp: keys_dom_lookup dest: consistentD2)
  moreover have "finite (Mapping.keys (m_elementToGroup s))"
    using assms(1) by (simp add: consistent_def)
  ultimately show ?thesis by (rule finite_subset)
qed

lemma removeConection_detaches:
  assumes c: "consistent s"
    and g: "Mapping.lookup (m_elementToGroup s) a = Some g0"
    and sz: "a < Mapping.size (m_elementToGroup s)"
  shows "\<exists>s' g. removeConection s a = Inr s' \<and> consistent s' \<and>
           Mapping.lookup (m_elementToGroup s') a = Some g \<and>
           g < length (m_groupToElement s') \<and> m_groupToElement s' ! g = {a} \<and>
           (if 1 < card (m_groupToElement s ! g0)
            then g = length (m_groupToElement s) \<and>
                 length (m_groupToElement s') = Suc (length (m_groupToElement s))
            else g = g0 \<and> length (m_groupToElement s') = length (m_groupToElement s))"
proof -
  from consistentD1 [OF c g] have gl: "g0 < length (m_groupToElement s)"
    and ag: "a \<in> m_groupToElement s ! g0" by simp_all
  have fin: "finite (m_groupToElement s ! g0)" by (rule consistent_finite_group [OF c gl])
  have sub: "subscript (m_elementToGroup s) a = (g0, m_elementToGroup s)"
    using g by (simp add: subscript_def)
  show ?thesis
  proof (cases "1 < card (m_groupToElement s ! g0)")
    case True
    let ?s' = "addElement \<lparr>m_elementToGroup = m_elementToGroup s,
                 m_groupToElement = (m_groupToElement s)[g0 := m_groupToElement s ! g0 - {a}]\<rparr> a"
    have r: "removeConection s a = Inr ?s'"
      using sz sub gl True by (simp add: removeConection_def)
    have "consistent ?s'"
    proof (rule consistentI)
      show "finite (Mapping.keys (m_elementToGroup ?s'))"
        using c by (simp add: addElement_def consistent_def)
    next
      fix e g'
      assume "Mapping.lookup (m_elementToGroup ?s') e = Some g'"
      then show "g' < length (m_groupToElement ?s') \<and> e \<in> m_groupToElement ?s' ! g'"
        using consistentD1 [OF c, of e g'] gl
        by (auto simp: addElement_def lookup_update' nth_append nth_list_update split: if_splits)
    next
      fix e g'
      assume "g' < length (m_groupToElement ?s')" and "e \<in> m_groupToElement ?s' ! g'"
      then show "Mapping.lookup (m_elementToGroup ?s') e = Some g'"
        using consistentD2 [OF c, of g' e] gl g
        by (auto simp: addElement_def lookup_update' nth_append nth_list_update split: if_splits)
    qed
    moreover have "Mapping.lookup (m_elementToGroup ?s') a = Some (length (m_groupToElement s))"
      by (simp add: addElement_def)
    moreover have "m_groupToElement ?s' ! length (m_groupToElement s) = {a}"
      by (simp add: addElement_def nth_append)
    moreover have "length (m_groupToElement ?s') = Suc (length (m_groupToElement s))"
      by (simp add: addElement_def)
    ultimately show ?thesis using r True by (intro exI [of _ ?s'] exI [of _ "length (m_groupToElement s)"]) simp
  next
    case False
    have r: "removeConection s a = Inr s"
      using sz sub gl False by (simp add: removeConection_def)
    from fin ag have "card (m_groupToElement s ! g0) \<noteq> 0" by auto
    with False have "card (m_groupToElement s ! g0) = 1" by simp
    then obtain x where "m_groupToElement s ! g0 = {x}" by (rule card_1_singletonE)
    with ag have "m_groupToElement s ! g0 = {a}" by simp
    with r c g gl False show ?thesis by (intro exI [of _ s] exI [of _ g0]) simp
  qed
qed

lemma migrate_moves:
  assumes "consistent s"
    and "Mapping.lookup (m_elementToGroup s) a = Some g"
  shows "\<exists>s'. migrate g ns s = Inr s' \<and> consistent s' \<and>
           length (m_groupToElement s') = length (m_groupToElement s) \<and>
           m_groupToElement s' ! g = m_groupToElement s ! g \<union> set ns \<and>
           Mapping.lookup (m_elementToGroup s') a = Some g \<and>
           (\<forall>n \<in> set ns. Mapping.lookup (m_elementToGroup s') n = Some g)"
  using assms
proof (induction ns arbitrary: s)
  case Nil
  then show ?case by simp
next
  case (Cons n ns)
  note c = \<open>consistent s\<close>
  from consistentD1 [OF c Cons.prems(2)] have gl: "g < length (m_groupToElement s)" by simp
  obtain og m where sub: "subscript (m_elementToGroup s) n = (og, m)"
    by (cases "subscript (m_elementToGroup s) n")
  have ogl: "og < length (m_groupToElement s)"
    using sub gl consistentD1 [OF c, of n og]
    by (auto simp: subscript_def split: option.splits)
  have og_mem: "\<And>g'. g' < length (m_groupToElement s) \<Longrightarrow> n \<in> m_groupToElement s ! g' \<Longrightarrow> g' = og"
    using sub consistentD2 [OF c, of _ n]
    by (auto simp: subscript_def split: option.splits)
  have lk: "\<And>e. e \<noteq> n \<Longrightarrow> Mapping.lookup m e = Mapping.lookup (m_elementToGroup s) e"
    using sub by (auto simp: subscript_def lookup_update' split: option.splits)
  have km: "finite (Mapping.keys m)"
    using sub c by (auto simp: subscript_def consistent_def split: option.splits)
  let ?gs1 = "(m_groupToElement s)[og := m_groupToElement s ! og - {n}]"
  let ?s1 = "\<lparr>m_elementToGroup = Mapping.update n g m,
              m_groupToElement = ?gs1[g := insert n (?gs1 ! g)]\<rparr>"
  have step: "migrate g (n # ns) s = migrate g ns ?s1"
    using sub ogl gl by simp
  have c1: "consistent ?s1"
  proof (rule consistentI)
    show "finite (Mapping.keys (m_elementToGroup ?s1))" using km by simp
  next
    fix e g'
    assume "Mapping.lookup (m_elementToGroup ?s1) e = Some g'"
    then show "g' < length (m_groupToElement ?s1) \<and> e \<in> m_groupToElement ?s1 ! g'"
      using consistentD1 [OF c, of e g'] gl ogl lk [of e]
      by (auto simp: lookup_update' nth_list_update split: if_splits)
  next
    fix e g'
    assume "g' < length (m_groupToElement ?s1)" and "e \<in> m_groupToElement ?s1 ! g'"
    then show "Mapping.lookup (m_elementToGroup ?s1) e = Some g'"
      using consistentD2 [OF c, of g' e] gl ogl lk [of e] og_mem [of g']
      by (auto simp: lookup_update' nth_list_update split: if_splits)
  qed
  have a1: "Mapping.lookup (m_elementToGroup ?s1) a = Some g"
    using Cons.prems(2) lk [of a] by (simp add: lookup_update')
  from Cons.IH [OF c1 a1] obtain s' where
    s': "migrate g ns ?s1 = Inr s'" "consistent s'"
      "length (m_groupToElement s') = length (m_groupToElement ?s1)"
      "m_groupToElement s' ! g = m_groupToElement ?s1 ! g \<union> set ns"
      "Mapping.lookup (m_elementToGroup s') a = Some g"
      "\<forall>k \<in> set ns. Mapping.lookup (m_elementToGroup s') k = Some g"
    by blast
  have n_in: "n \<in> m_groupToElement s' ! g"
    using s'(4) gl by simp
  have "Mapping.lookup (m_elementToGroup s') n = Some g"
    using consistentD2 [OF s'(2) _ n_in] s'(3) gl by simp
  moreover have "m_groupToElement s' ! g = m_groupToElement s ! g \<union> set (n # ns)"
    using s'(4) gl ogl by (auto simp: nth_list_update split: if_splits)
  ultimately show ?case
    using step s' by auto
qed

lemma set_set_intersection:
  "sorted xs \<Longrightarrow> sorted ys \<Longrightarrow> set (set_intersection xs ys) = set xs \<inter> set ys"
  by (induction xs ys rule: set_intersection.induct) (auto simp: leD)

lemma set_intersection_sort:
  "set (set_intersection (sort xs) (sort ys)) = set xs \<inter> set ys"
  by (simp add: set_set_intersection)

subsection \<open>Claims about the group map\<close>

text \<open>
  C3. The partition invariant over sequences of \<^verbatim>\<open>addElement\<close>, \<^verbatim>\<open>addConection\<close> and
  \<^verbatim>\<open>removeElement\<close> does not hold on the code: after adding element \<open>0\<close> and removing
  it again no element is present in the element map, yet the group vector still holds the
  group \<open>{0}\<close>, so the union of the groups is not the set of present elements.
\<close>

theorem partition_broken_after_removeElement:
  "case run BiMap_new [AddElement 0, RemoveElement 0] of
     Inl e \<Rightarrow> False
   | Inr s \<Rightarrow> Mapping.keys (m_elementToGroup s) = {} \<and> getAllGroups s = [{0}] \<and>
              \<Union> (set (getAllGroups s)) \<noteq> Mapping.keys (m_elementToGroup s)"
  by code_simp

text \<open>
  On a map whose containers disagree the migration works on the slot the element map names,
  not on the slot that holds the element. After \<^verbatim>\<open>addConection(0, 1)\<close> on four elements the
  element \<open>2\<close> sits in slot \<open>1\<close> and is still mapped to slot \<open>2\<close>; migrating it as a neighbour
  of \<open>0\<close> erases it from slot \<open>2\<close>, where it is not, and it stays a member of slot \<open>1\<close>
  besides the new group.
\<close>

lemma removeConection_neighbors_on_stale_map:
  "case run BiMap_new [AddElement 0, AddElement 1, AddElement 2, AddElement 3,
                       AddConection 0 1] of
     Inl e \<Rightarrow> False
   | Inr s \<Rightarrow>
       getAllGroups s = [{0, 1}, {2}, {3}] \<and> getGroup s 2 = Inr 2 \<and>
       (case removeConection_neighbors s 0 [2] 1 [] of
          Inl e \<Rightarrow> False
        | Inr s' \<Rightarrow>
            getGroup s' 0 = Inr 3 \<and> getGroup s' 2 = Inr 3 \<and>
            getAllGroups s' = [{1}, {2}, {3}, {0, 2}])"
  by code_simp

text \<open>
  C5, as stated, fails on the code in two ways that are the code's design. The one-argument
  overload asserts \<^verbatim>\<open>index < m_elementToGroup.size()\<close>: on the map holding the elements
  \<open>0\<close> and \<open>7\<close> the call for \<open>a = 7\<close> stops at that assertion. And the detachment is
  guarded by \<^verbatim>\<open>m_groupToElement[group].size() > 1\<close>: when \<open>a\<close> is alone in its group no new
  group is made, \<open>a\<close> keeps its slot, the neighbour moves into it and leaves an empty slot
  behind.
\<close>

theorem removeConection_neighbors_not_always_new_group:
  "(case run BiMap_new [AddElement 0, AddElement 7] of
      Inl e \<Rightarrow> False
    | Inr s \<Rightarrow>
        getGroup s 7 = Inr 1 \<and> getGroup s 0 = Inr 0 \<and>
        removeConection_neighbors s 7 [] 0 [] = Inl AssertionFailed) \<and>
   (case run BiMap_new [AddElement 0, AddElement 1] of
      Inl e \<Rightarrow> False
    | Inr s \<Rightarrow>
       (case removeConection_neighbors s 0 [1] 1 [0] of
          Inl e \<Rightarrow> False
        | Inr s' \<Rightarrow>
            getGroup s' 0 = getGroup s 0 \<and>
            length (getAllGroups s') = length (getAllGroups s) \<and>
            getAllGroups s' = [{0, 1}, {}]))"
  by code_simp

text \<open>
  C5, amended. On a group map whose two containers agree and which holds \<open>a\<close> (in group
  \<open>g0\<close>) and \<open>b\<close>, with \<open>a\<close> below the number of elements, a call of the four-argument
  \<^verbatim>\<open>removeConection\<close> with disjoint neighbour lists succeeds; afterwards \<open>a\<close> and every
  neighbour of \<open>a\<close> are mapped to one group \<open>g\<close>, whose members are exactly \<open>a\<close> and its
  neighbours, no other group holds any of them, and the two containers agree again. The
  group \<open>g\<close> is a new slot at the end of the group vector when the group of \<open>a\<close> had more
  than one member, and the old slot \<open>g0\<close> of \<open>a\<close>, with no slot added, otherwise.
\<close>

theorem removeConection_neighbors_isolated:
  assumes c: "consistent s"
    and a: "getGroup s a = Inr g0"
    and b: "b \<in> Mapping.keys (m_elementToGroup s)"
    and sz: "a < Mapping.size (m_elementToGroup s)"
    and disj: "set a_neighbors \<inter> set b_neighbors = {}"
  shows "\<exists>s' g. removeConection_neighbors s a a_neighbors b b_neighbors = Inr s' \<and>
           consistent s' \<and>
           getGroup s' a = Inr g \<and>
           getElements s' g = Inr (insert a (set a_neighbors)) \<and>
           (\<forall>n \<in> set a_neighbors. getGroup s' n = Inr g) \<and>
           (\<forall>g' \<in> {0..<length (getAllGroups s')}.
              g' = g \<or> getAllGroups s' ! g' \<inter> insert a (set a_neighbors) = {}) \<and>
           (if 1 < card (getAllGroups s ! g0)
            then g = length (getAllGroups s) \<and>
                 length (getAllGroups s') = Suc (length (getAllGroups s))
            else g = g0 \<and> length (getAllGroups s') = length (getAllGroups s))"
proof -
  have g0: "Mapping.lookup (m_elementToGroup s) a = Some g0"
    using a by (simp add: getGroup_def split: option.splits)
  then have ak: "a \<in> Mapping.keys (m_elementToGroup s)"
    by (auto simp: keys_dom_lookup)
  have empty: "length (set_intersection (sort a_neighbors) (sort b_neighbors)) = 0"
    using disj set_intersection_sort [of a_neighbors b_neighbors] by simp
  from removeConection_detaches [OF c g0 sz] obtain s1 g where
    s1: "removeConection s a = Inr s1" "consistent s1"
      "Mapping.lookup (m_elementToGroup s1) a = Some g"
      "g < length (m_groupToElement s1)" "m_groupToElement s1 ! g = {a}"
    and new: "if 1 < card (m_groupToElement s ! g0)
            then g = length (m_groupToElement s) \<and>
                 length (m_groupToElement s1) = Suc (length (m_groupToElement s))
            else g = g0 \<and> length (m_groupToElement s1) = length (m_groupToElement s)"
    by blast
  have sub: "subscript (m_elementToGroup s1) a = (g, m_elementToGroup s1)"
    using s1(3) by (simp add: subscript_def)
  from migrate_moves [OF s1(2) s1(3), of "sort a_neighbors"] obtain s' where
    s': "migrate g (sort a_neighbors) s1 = Inr s'" "consistent s'"
      "length (m_groupToElement s') = length (m_groupToElement s1)"
      "m_groupToElement s' ! g = m_groupToElement s1 ! g \<union> set (sort a_neighbors)"
      "Mapping.lookup (m_elementToGroup s') a = Some g"
      "\<forall>n \<in> set (sort a_neighbors). Mapping.lookup (m_elementToGroup s') n = Some g"
    by blast
  have eta: "\<lparr>m_elementToGroup = m_elementToGroup s1,
               m_groupToElement = m_groupToElement s1\<rparr> = s1"
    by simp
  have r: "removeConection_neighbors s a a_neighbors b b_neighbors = Inr s'"
    using ak b empty s1(1) sub s'(1) by (simp add: removeConection_neighbors_def eta)
  have members: "m_groupToElement s' ! g = insert a (set a_neighbors)"
    using s'(4) s1(5) by simp
  have gl: "g < length (m_groupToElement s')" using s'(3) s1(4) by simp
  have others: "g' = g \<or> m_groupToElement s' ! g' \<inter> insert a (set a_neighbors) = {}"
    if "g' < length (m_groupToElement s')" for g'
  proof (cases "g' = g")
    case True
    then show ?thesis by simp
  next
    case False
    have "e \<notin> m_groupToElement s' ! g'" if "e \<in> insert a (set a_neighbors)" for e
    proof
      assume "e \<in> m_groupToElement s' ! g'"
      from consistentD2 [OF s'(2) \<open>g' < length (m_groupToElement s')\<close> this]
      have "Mapping.lookup (m_elementToGroup s') e = Some g'" .
      moreover have "Mapping.lookup (m_elementToGroup s') e = Some g"
        using that s'(5,6) by auto
      ultimately show False using False by simp
    qed
    then show ?thesis by blast
  qed
  have new': "if 1 < card (getAllGroups s ! g0)
            then g = length (getAllGroups s) \<and>
                 length (getAllGroups s') = Suc (length (getAllGroups s))
            else g = g0 \<and> length (getAllGroups s') = length (getAllGroups s)"
    using new s'(3) by (simp add: getAllGroups_def)
  have "consistent s' \<and>
           getGroup s' a = Inr g \<and>
           getElements s' g = Inr (insert a (set a_neighbors)) \<and>
           (\<forall>n \<in> set a_neighbors. getGroup s' n = Inr g) \<and>
           (\<forall>g' \<in> {0..<length (getAllGroups s')}.
              g' = g \<or> getAllGroups s' ! g' \<inter> insert a (set a_neighbors) = {})"
    using s'(2,5,6) members gl others
    by (auto simp: getGroup_def getElements_def getAllGroups_def)
  with r new' show ?thesis by blast
qed

theorem removeConection_neighbors_isolated_witness:
  "consistent chain \<and> getGroup chain 1 = Inr 0 \<and>
   0 \<in> Mapping.keys (m_elementToGroup chain) \<and> 1 < Mapping.size (m_elementToGroup chain) \<and>
   set [2::nat] \<inter> set [] = {} \<and>
   (\<exists>s' g. removeConection_neighbors chain 1 [2] 0 [] = Inr s' \<and>
           consistent s' \<and>
           getGroup s' 1 = Inr g \<and>
           getElements s' g = Inr (insert 1 (set [2])) \<and>
           (\<forall>n \<in> set [2]. getGroup s' n = Inr g) \<and>
           (\<forall>g' \<in> {0..<length (getAllGroups s')}.
              g' = g \<or> getAllGroups s' ! g' \<inter> insert 1 (set [2]) = {}) \<and>
           (if 1 < card (getAllGroups chain ! 0)
            then g = length (getAllGroups chain) \<and>
                 length (getAllGroups s') = Suc (length (getAllGroups chain))
            else g = 0 \<and> length (getAllGroups s') = length (getAllGroups chain)))"
proof -
  have h1: "consistent chain"
    by (simp add: consistent_def chain_def atLeastLessThanSuc)
  have h2: "getGroup chain 1 = Inr 0" by (simp add: chain_def getGroup_def)
  have h3: "0 \<in> Mapping.keys (m_elementToGroup chain)" by (simp add: chain_def)
  have h4: "1 < Mapping.size (m_elementToGroup chain)"
    by (simp add: chain_def Mapping.size_update)
  have h5: "set [2::nat] \<inter> set [] = {}" by simp
  show ?thesis
    using h1 h2 h3 h4 h5 removeConection_neighbors_isolated [OF h1 h2 h3 h4 h5] by blast
qed

text \<open>
  C6. \<^verbatim>\<open>removeElement\<close> does not delete the element: called for element \<open>0\<close> of the
  group \<open>{0, 1}\<close> it leaves \<open>0\<close> in the element map (mapped to group \<open>1\<close>) and in the
  group vector (as the group \<open>{0}\<close>), and erases the key \<open>1\<close> from the element map instead.
\<close>

theorem removeElement_keeps_element:
  "case run BiMap_new [AddElement 0, AddElement 1, AddConection 0 1, RemoveElement 0] of
     Inl e \<Rightarrow> False
   | Inr s \<Rightarrow> Mapping.keys (m_elementToGroup s) = {0} \<and> getGroup s 0 = Inr 1 \<and>
              getAllGroups s = [{1}, {0}]"
  by code_simp

text \<open>
  C7. After \<^verbatim>\<open>addConection(0, 1)\<close> on four singleton groups the group of element \<open>2\<close>
  is still recorded as slot \<open>2\<close> although its set has moved to slot \<open>1\<close>; the following
  \<^verbatim>\<open>addConection(0, 2)\<close> therefore merges the set of element \<open>3\<close> into the group of
  \<open>0\<close>, and \<open>getGroup\<close> returns different groups for \<open>0\<close> and \<open>2\<close>.
\<close>

theorem addConection_groups_differ:
  "case run BiMap_new [AddElement 0, AddElement 1, AddElement 2, AddElement 3,
                       AddConection 0 1, AddConection 0 2] of
     Inl e \<Rightarrow> False
   | Inr s \<Rightarrow> getGroup s 0 = Inr 0 \<and> getGroup s 2 = Inr 2 \<and> getGroup s 3 = Inr 0 \<and>
              getAllGroups s = [{0, 1, 3}, {2}]"
  by code_simp

text \<open>
  C10. When the neighbour lists of \<open>a\<close> and \<open>b\<close> share an element, the four-argument
  \<^verbatim>\<open>removeConection\<close> on a map holding \<open>a\<close> and \<open>b\<close> returns the map unchanged: both
  containers are exactly as before.
\<close>

theorem removeConection_neighbors_common_neighbor:
  assumes "a \<in> Mapping.keys (m_elementToGroup s)"
    and "b \<in> Mapping.keys (m_elementToGroup s)"
    and "set a_neighbors \<inter> set b_neighbors \<noteq> {}"
  shows "removeConection_neighbors s a a_neighbors b b_neighbors = Inr s"
proof -
  have "set (set_intersection (sort a_neighbors) (sort b_neighbors)) \<noteq> {}"
    using assms(3) by (simp add: set_intersection_sort)
  then have "length (set_intersection (sort a_neighbors) (sort b_neighbors)) \<noteq> 0"
    by auto
  with assms(1,2) show ?thesis
    by (simp add: removeConection_neighbors_def)
qed

theorem removeConection_neighbors_common_neighbor_witness:
  "0 \<in> Mapping.keys (m_elementToGroup chain) \<and> 1 \<in> Mapping.keys (m_elementToGroup chain) \<and>
   set [1, 2::nat] \<inter> set [0, 2] \<noteq> {} \<and>
   removeConection_neighbors chain 0 [1, 2] 1 [0, 2] = Inr chain"
  using removeConection_neighbors_common_neighbor [of 0 chain 1 "[1, 2]" "[0, 2]"]
  by (simp add: chain_def)

section \<open>Molecule and undo commands: properties\<close>

subsection \<open>Auxiliary facts\<close>

lemma findUniqueId_found:
  assumes "pos \<in> set ids"
  shows "findUniqueId ids pos < length ids \<and> ids ! findUniqueId ids pos = pos"
proof -
  let ?k = "length (takeWhile (\<lambda>p. p \<noteq> pos) ids)"
  have "takeWhile (\<lambda>p. p \<noteq> pos) ids \<noteq> ids"
    using assms by (auto simp: takeWhile_eq_all_conv)
  then have lt: "?k < length ids"
    by (metis length_takeWhile_le le_neq_implies_less takeWhile_eq_take take_all_iff order_refl)
  from nth_length_takeWhile [OF lt] have "ids ! ?k = pos" by simp
  with lt assms show ?thesis by (simp add: findUniqueId_def)
qed

lemma findUniqueId_update:
  assumes "pos \<notin> set xs" and "k < length xs"
  shows "findUniqueId (xs[k := pos]) pos = k"
proof -
  have "takeWhile (\<lambda>p. p \<noteq> pos) (xs[k := pos]) = take k (xs[k := pos])"
  proof (rule takeWhile_eq_take_P_nth)
    fix i assume "i < k" "i < length (xs[k := pos])"
    then show "xs[k := pos] ! i \<noteq> pos" using assms by (auto simp: nth_list_update)
  next
    show "\<not> xs[k := pos] ! k \<noteq> pos" using assms by simp
  qed
  moreover have "pos \<in> set (xs[k := pos])"
    using assms(2) by (simp add: set_update_memI)
  ultimately show ?thesis using assms(2) by (simp add: findUniqueId_def)
qed

lemma rewrite_bonds_nth:
  assumes "distinct idxs" and "\<forall>i \<in> set idxs. i < length ps"
  shows "rewrite_bonds idxs oldId newId ps =
           map (\<lambda>k. if k \<in> set idxs then rewrite_endpoint oldId newId (ps ! k) else ps ! k)
             [0..<length ps]"
  using assms
proof (induction idxs arbitrary: ps)
  case Nil
  then show ?case by (simp add: map_nth)
next
  case (Cons i rest)
  let ?ps = "ps[i := rewrite_endpoint oldId newId (ps ! i)]"
  have step: "rewrite_bonds (i # rest) oldId newId ps = rewrite_bonds rest oldId newId ?ps"
    by (simp add: rewrite_endpoint_def)
  have "rewrite_bonds rest oldId newId ?ps =
          map (\<lambda>k. if k \<in> set rest then rewrite_endpoint oldId newId (?ps ! k) else ?ps ! k)
            [0..<length ?ps]"
    using Cons.prems by (intro Cons.IH) auto
  also have "\<dots> = map (\<lambda>k. if k \<in> set (i # rest)
                              then rewrite_endpoint oldId newId (ps ! k) else ps ! k)
                     [0..<length ps]"
    using Cons.prems by (auto simp: nth_list_update)
  finally show ?case using step by simp
qed

lemma rewrite_bonds_bonds:
  "rewrite_bonds (bonds mol atomId) atomId newId (bondPairs mol) =
     map (\<lambda>pr. if references atomId pr then rewrite_endpoint atomId newId pr else pr)
       (bondPairs mol)"
proof -
  have "rewrite_bonds (bonds mol atomId) atomId newId (bondPairs mol) =
          map (\<lambda>k. if k \<in> set (bonds mol atomId)
                    then rewrite_endpoint atomId newId (bondPairs mol ! k)
                    else bondPairs mol ! k) [0..<length (bondPairs mol)]"
    by (rule rewrite_bonds_nth) (auto simp: bonds_def bondCount_def)
  also have "\<dots> = map (\<lambda>pr. if references atomId pr then rewrite_endpoint atomId newId pr else pr)
                     (bondPairs mol)"
    by (rule nth_equalityI) (auto simp: bonds_def bondCount_def references_def)
  finally show ?thesis .
qed

lemma rewrite_bonds_of:
  assumes "bondPairs mol = ps"
  shows "rewrite_bonds (bonds mol atomId) atomId newId ps =
     map (\<lambda>pr. if references atomId pr then rewrite_endpoint atomId newId pr else pr) ps"
  using rewrite_bonds_bonds [of mol atomId newId] assms by simp

lemma move_last_result:
  assumes "m_atomId < length (atomicNumbers mol)"
    and "movedId \<in> set (atomUniqueIds mol)"
    and "length (atomUniqueIds mol) \<le> MaxIndex"
  shows "move_last m_atomId movedId mol =
     Inr (mol\<lparr>atomicNumbers := (atomicNumbers mol)[m_atomId := last (atomicNumbers mol)],
              positions3d :=
                (if length (positions3d mol) = length (atomicNumbers mol)
                 then (positions3d mol)[m_atomId := last (positions3d mol)]
                 else positions3d mol),
              bondPairs :=
                map (\<lambda>pr. if references movedId pr
                           then rewrite_endpoint movedId m_atomId pr else pr) (bondPairs mol),
              atomUniqueIds :=
                (atomUniqueIds mol)[findUniqueId (atomUniqueIds mol) movedId := m_atomId]\<rparr>)"
proof -
  from findUniqueId_found [OF assms(2)]
  have f: "findUniqueId (atomUniqueIds mol) movedId < length (atomUniqueIds mol)" by simp
  with assms(3) have ne: "findUniqueId (atomUniqueIds mol) movedId \<noteq> MaxIndex" by simp
  have nonempty: "atomicNumbers mol \<noteq> []" using assms(1) by auto
  show ?thesis
    using assms(1) f ne nonempty
    by (simp add: move_last_def Let_def atomUniqueId_def rewrite_bonds_of)
qed

lemma swap_back_result:
  assumes "m_atomId < length (atomicNumbers mol)"
    and "m_atomId \<in> set (atomUniqueIds mol)"
    and "length (atomUniqueIds mol) \<le> MaxIndex"
  shows "swap_back m_atomId movedId mol =
     Inr (mol\<lparr>positions3d :=
                (if length (positions3d mol) = length (atomicNumbers mol)
                 then swap_with_back m_atomId (positions3d mol)
                 else positions3d mol),
              atomicNumbers := swap_with_back m_atomId (atomicNumbers mol),
              bondPairs :=
                map (\<lambda>pr. if references m_atomId pr
                           then rewrite_endpoint m_atomId movedId pr else pr) (bondPairs mol),
              atomUniqueIds :=
                (atomUniqueIds mol)[findUniqueId (atomUniqueIds mol) m_atomId := movedId]\<rparr>)"
proof -
  from findUniqueId_found [OF assms(2)]
  have f: "findUniqueId (atomUniqueIds mol) m_atomId < length (atomUniqueIds mol)" by simp
  with assms(3) have ne: "findUniqueId (atomUniqueIds mol) m_atomId \<noteq> MaxIndex" by simp
  show ?thesis
    using assms(1) f ne
    by (simp add: swap_back_def Let_def atomUniqueId_def rewrite_bonds_of)
qed

lemma resize_shrink:
  "n \<le> length xs \<Longrightarrow> n < MaxIndex \<Longrightarrow> resize n v xs = Inr (take n xs)"
  by (simp add: resize_def)

lemma redo_last_result:
  assumes "m_atomUid < length (atomUniqueIds mol)" and "atomicNumbers mol \<noteq> []"
    and "length (atomicNumbers mol) \<le> MaxIndex"
  shows "RemoveAtomCommand_redo (length (atomicNumbers mol) - 1) m_atomUid mol =
     Inr (mol\<lparr>atomUniqueIds := (atomUniqueIds mol)[m_atomUid := MaxIndex],
              positions3d :=
                (if length (positions3d mol) = length (atomicNumbers mol)
                 then butlast (positions3d mol) else positions3d mol),
              atomicNumbers := butlast (atomicNumbers mol),
              graphDirty := True\<rparr>)"
proof -
  have lt: "length (atomicNumbers mol) - 1 < MaxIndex" "0 < length (atomicNumbers mol)"
    using assms(2,3) by (cases "atomicNumbers mol"; simp)+
  show ?thesis
    using assms(1,2) lt
    by (simp add: RemoveAtomCommand_redo_def Let_def atomCount_def resize_shrink
        butlast_conv_take)
qed

lemma redo_inner_result:
  assumes "m_atomUid < length (atomUniqueIds mol)"
    and "m_atomId < length (atomicNumbers mol) - 1"
    and "length (atomicNumbers mol) - 1 \<in> set ((atomUniqueIds mol)[m_atomUid := MaxIndex])"
    and "length (atomUniqueIds mol) \<le> MaxIndex"
    and "length (atomicNumbers mol) \<le> MaxIndex"
  shows "RemoveAtomCommand_redo m_atomId m_atomUid mol =
     Inr (mol\<lparr>atomUniqueIds :=
                ((atomUniqueIds mol)[m_atomUid := MaxIndex])
                  [findUniqueId ((atomUniqueIds mol)[m_atomUid := MaxIndex])
                     (length (atomicNumbers mol) - 1) := m_atomId],
              positions3d :=
                (if length (positions3d mol) = length (atomicNumbers mol)
                 then butlast ((positions3d mol)[m_atomId := last (positions3d mol)])
                 else positions3d mol),
              atomicNumbers := butlast ((atomicNumbers mol)[m_atomId := last (atomicNumbers mol)]),
              bondPairs :=
                map (\<lambda>pr. if references (length (atomicNumbers mol) - 1) pr
                           then rewrite_endpoint (length (atomicNumbers mol) - 1) m_atomId pr
                           else pr) (bondPairs mol),
              graphDirty := True\<rparr>)"
proof -
  let ?mol1 = "mol\<lparr>atomUniqueIds := (atomUniqueIds mol)[m_atomUid := MaxIndex]\<rparr>"
  let ?last = "length (atomicNumbers mol) - 1"
  have ml: "move_last m_atomId ?last ?mol1 =
     Inr (?mol1\<lparr>atomicNumbers := (atomicNumbers ?mol1)[m_atomId := last (atomicNumbers ?mol1)],
              positions3d :=
                (if length (positions3d ?mol1) = length (atomicNumbers ?mol1)
                 then (positions3d ?mol1)[m_atomId := last (positions3d ?mol1)]
                 else positions3d ?mol1),
              bondPairs :=
                map (\<lambda>pr. if references ?last pr
                           then rewrite_endpoint ?last m_atomId pr else pr) (bondPairs ?mol1),
              atomUniqueIds :=
                (atomUniqueIds ?mol1)[findUniqueId (atomUniqueIds ?mol1) ?last := m_atomId]\<rparr>)"
    using assms by (intro move_last_result) auto
  have ne: "atomicNumbers mol \<noteq> []" "m_atomId \<noteq> ?last" "0 < length (atomicNumbers mol)"
    "?last < MaxIndex"
    using assms(2,5) by auto
  show ?thesis
    using assms(1) ne ml
    by (simp add: RemoveAtomCommand_redo_def Let_def atomCount_def resize_shrink
        butlast_conv_take)
qed

lemma undo_last_result:
  assumes "m_atomUid < length (atomUniqueIds mol)"
  shows "RemoveAtomCommand_undo (length (atomicNumbers mol)) m_atomUid m_atomicNumber
           m_position3d mol =
     Inr (mol\<lparr>positions3d :=
                (if length (positions3d mol) = length (atomicNumbers mol)
                 then positions3d mol @ [m_position3d] else positions3d mol),
              atomicNumbers := atomicNumbers mol @ [m_atomicNumber],
              atomUniqueIds := (atomUniqueIds mol)[m_atomUid := length (atomicNumbers mol)],
              graphDirty := True\<rparr>)"
  using assms
  by (simp add: RemoveAtomCommand_undo_def Let_def atomCount_def)

lemma undo_inner_result:
  assumes "m_atomUid < length (atomUniqueIds mol)"
    and "m_atomId < length (atomicNumbers mol)"
    and "m_atomId \<in> set (atomUniqueIds mol)"
    and "length (atomUniqueIds mol) \<le> MaxIndex"
    and "length (positions3d mol) \<noteq> Suc (length (atomicNumbers mol))"
  shows "RemoveAtomCommand_undo m_atomId m_atomUid m_atomicNumber m_position3d mol =
     Inr (mol\<lparr>positions3d :=
                (if length (positions3d mol) = length (atomicNumbers mol)
                 then swap_with_back m_atomId (positions3d mol @ [m_position3d])
                 else positions3d mol),
              atomicNumbers := swap_with_back m_atomId (atomicNumbers mol @ [m_atomicNumber]),
              bondPairs :=
                map (\<lambda>pr. if references m_atomId pr
                           then rewrite_endpoint m_atomId (length (atomicNumbers mol)) pr
                           else pr) (bondPairs mol),
              atomUniqueIds :=
                ((atomUniqueIds mol)
                   [findUniqueId (atomUniqueIds mol) m_atomId := length (atomicNumbers mol)])
                   [m_atomUid := m_atomId],
              graphDirty := True\<rparr>)"
proof (cases "length (positions3d mol) = length (atomicNumbers mol)")
  case True
  let ?mol2 = "mol\<lparr>positions3d := positions3d mol @ [m_position3d],
                  atomicNumbers := atomicNumbers mol @ [m_atomicNumber]\<rparr>"
  have "swap_back m_atomId (length (atomicNumbers mol)) ?mol2 =
     Inr (?mol2\<lparr>positions3d :=
                (if length (positions3d ?mol2) = length (atomicNumbers ?mol2)
                 then swap_with_back m_atomId (positions3d ?mol2)
                 else positions3d ?mol2),
              atomicNumbers := swap_with_back m_atomId (atomicNumbers ?mol2),
              bondPairs :=
                map (\<lambda>pr. if references m_atomId pr
                           then rewrite_endpoint m_atomId (length (atomicNumbers mol)) pr
                           else pr) (bondPairs ?mol2),
              atomUniqueIds :=
                (atomUniqueIds ?mol2)
                  [findUniqueId (atomUniqueIds ?mol2) m_atomId := length (atomicNumbers mol)]\<rparr>)"
    using assms by (intro swap_back_result) auto
  then show ?thesis
    using assms(1,2) True
    by (simp add: RemoveAtomCommand_undo_def Let_def atomCount_def)
next
  case False
  let ?mol2 = "mol\<lparr>atomicNumbers := atomicNumbers mol @ [m_atomicNumber]\<rparr>"
  have "swap_back m_atomId (length (atomicNumbers mol)) ?mol2 =
     Inr (?mol2\<lparr>positions3d :=
                (if length (positions3d ?mol2) = length (atomicNumbers ?mol2)
                 then swap_with_back m_atomId (positions3d ?mol2)
                 else positions3d ?mol2),
              atomicNumbers := swap_with_back m_atomId (atomicNumbers ?mol2),
              bondPairs :=
                map (\<lambda>pr. if references m_atomId pr
                           then rewrite_endpoint m_atomId (length (atomicNumbers mol)) pr
                           else pr) (bondPairs ?mol2),
              atomUniqueIds :=
                (atomUniqueIds ?mol2)
                  [findUniqueId (atomUniqueIds ?mol2) m_atomId := length (atomicNumbers mol)]\<rparr>)"
    using assms by (intro swap_back_result) auto
  then show ?thesis
    using assms(1,2,5) False
    by (simp add: RemoveAtomCommand_undo_def Let_def atomCount_def)
qed

lemma swap_with_back_restore:
  assumes "i < length xs - 1"
  shows "swap_with_back i (butlast (xs[i := last xs]) @ [xs ! i]) = xs"
proof (rule nth_equalityI)
  show "length (swap_with_back i (butlast (xs[i := last xs]) @ [xs ! i])) = length xs"
    using assms by (simp add: swap_with_back_def)
next
  fix k assume "k < length (swap_with_back i (butlast (xs[i := last xs]) @ [xs ! i]))"
  then have k: "k < length xs" using assms by (simp add: swap_with_back_def)
  have ne: "xs \<noteq> []" using assms by auto
  show "swap_with_back i (butlast (xs[i := last xs]) @ [xs ! i]) ! k = xs ! k"
    using assms k ne
    by (auto simp: swap_with_back_def nth_list_update nth_append nth_butlast last_conv_nth)
qed

lemma rewrite_endpoint_back:
  assumes "\<not> references p pr"
  shows "(let pr' = (if references l pr then rewrite_endpoint l p pr else pr)
          in if references p pr' then rewrite_endpoint p l pr' else pr') = pr"
  using assms by (cases pr) (auto simp: references_def rewrite_endpoint_def Let_def)

lemma rewrite_map_back:
  assumes "\<forall>pr \<in> set ps. \<not> references p pr"
  shows "map (\<lambda>pr. if references p pr then rewrite_endpoint p l pr else pr)
           (map (\<lambda>pr. if references l pr then rewrite_endpoint l p pr else pr) ps) = ps"
proof -
  have "map ((\<lambda>pr. if references p pr then rewrite_endpoint p l pr else pr) \<circ>
             (\<lambda>pr. if references l pr then rewrite_endpoint l p pr else pr)) ps = map id ps"
  proof (rule map_cong [OF refl])
    fix pr assume "pr \<in> set ps"
    with assms have "\<not> references p pr" by blast
    from rewrite_endpoint_back [OF this, of l]
    show "((\<lambda>pr. if references p pr then rewrite_endpoint p l pr else pr) \<circ>
             (\<lambda>pr. if references l pr then rewrite_endpoint l p pr else pr)) pr = id pr"
      by (simp add: Let_def)
  qed
  then show ?thesis by simp
qed

lemma butlast_snoc_nth: "xs \<noteq> [] \<Longrightarrow> butlast xs @ [xs ! (length xs - 1)] = xs"
  by (metis append_butlast_last_id last_conv_nth)

lemma list_update_same: "xs ! k = v \<Longrightarrow> xs[k := v] = xs"
  by (metis list_update_id)

lemma list_update_twice_same: "xs ! k = v \<Longrightarrow> xs[k := w, k := v] = xs"
  by (metis list_update_id list_update_overwrite)

lemma RemoveAtomCommand_roundtrip:
  assumes r: "removes_atom m_atomId m_atomUid m_atomicNumber m_position3d mol"
  shows "\<exists>mol'. RemoveAtomCommand_redo m_atomId m_atomUid mol = Inr mol' \<and>
           RemoveAtomCommand_undo m_atomId m_atomUid m_atomicNumber m_position3d mol' =
             Inr (mol\<lparr>graphDirty := True\<rparr>)"
proof -
  let ?n = "length (atomicNumbers mol)"
  let ?ids = "atomUniqueIds mol"
  let ?ids1 = "(atomUniqueIds mol)[m_atomUid := MaxIndex]"
  from r have p: "m_atomId < ?n" and nmax: "?n \<le> MaxIndex"
    and u: "m_atomUid < length ?ids" and umax: "length ?ids \<le> MaxIndex"
    and up: "?ids ! m_atomUid = m_atomId"
    and lastid: "?n - 1 \<in> set ?ids"
    and uniq: "\<And>k. k < length ?ids \<Longrightarrow> ?ids ! k = m_atomId \<Longrightarrow> k = m_atomUid"
    and an: "m_atomicNumber = atomicNumbers mol ! m_atomId"
    and pos: "if length (positions3d mol) = ?n
              then m_position3d = positions3d mol ! m_atomId
              else positions3d mol = [] \<and> 2 \<le> ?n"
    and nobond: "\<forall>pr \<in> set (bondPairs mol). \<not> references m_atomId pr"
    by (auto simp: removes_atom_def atomCount_def)
  have ne: "atomicNumbers mol \<noteq> []" using p by auto
  have ids_back: "?ids1[m_atomUid := m_atomId] = ?ids"
    using list_update_twice_same [OF up] by simp
  show ?thesis
  proof (cases "m_atomId = ?n - 1")
    case True
    let ?mol' = "mol\<lparr>atomUniqueIds := ?ids1,
              positions3d :=
                (if length (positions3d mol) = ?n
                 then butlast (positions3d mol) else positions3d mol),
              atomicNumbers := butlast (atomicNumbers mol),
              graphDirty := True\<rparr>"
    have redo: "RemoveAtomCommand_redo m_atomId m_atomUid mol = Inr ?mol'"
      using redo_last_result [OF u ne nmax] True by simp
    have an_back: "butlast (atomicNumbers mol) @ [m_atomicNumber] = atomicNumbers mol"
      using an True butlast_snoc_nth [OF ne] by simp
    have pos_back: "(if length (positions3d ?mol') = length (atomicNumbers ?mol')
                     then positions3d ?mol' @ [m_position3d] else positions3d ?mol') =
                    positions3d mol"
    proof (cases "length (positions3d mol) = ?n")
      case par: True
      then have "positions3d mol \<noteq> []" using ne by auto
      from butlast_snoc_nth [OF this] pos par True
      show ?thesis by simp
    next
      case False
      with pos have "positions3d mol = []" "2 \<le> ?n" by simp_all
      then show ?thesis using False by auto
    qed
    have id: "m_atomId = length (atomicNumbers ?mol')" using True ne by simp
    have "RemoveAtomCommand_undo (length (atomicNumbers ?mol')) m_atomUid m_atomicNumber
            m_position3d ?mol' = Inr (mol\<lparr>graphDirty := True\<rparr>)"
      using u pos_back an_back ids_back id
      by (subst undo_last_result) simp_all
    with redo id show ?thesis by metis
  next
    case False
    with p have inner: "m_atomId < ?n - 1" by simp
    have last_ne: "?n - 1 \<noteq> m_atomId" using False by simp
    from lastid obtain k where k: "k < length ?ids" "?ids ! k = ?n - 1"
      by (auto simp: in_set_conv_nth)
    with up last_ne have "k \<noteq> m_atomUid" by auto
    with k have last1: "?n - 1 \<in> set ?ids1"
      by (auto simp: in_set_conv_nth nth_list_update intro!: exI [of _ k])
    let ?k = "findUniqueId ?ids1 (?n - 1)"
    from findUniqueId_found [OF last1] have fk: "?k < length ?ids1" "?ids1 ! ?k = ?n - 1"
      by simp_all
    have notin: "m_atomId \<notin> set ?ids1"
    proof
      assume "m_atomId \<in> set ?ids1"
      then obtain j where j: "j < length ?ids1" "?ids1 ! j = m_atomId"
        by (auto simp: in_set_conv_nth)
      show False
      proof (cases "j = m_atomUid")
        case True
        with j u have "MaxIndex = m_atomId" by simp
        with p nmax show False by simp
      next
        case False
        with j have "j < length ?ids" "?ids ! j = m_atomId" by simp_all
        from uniq [OF this] False show False by simp
      qed
    qed
    let ?mol' = "mol\<lparr>atomUniqueIds := ?ids1[?k := m_atomId],
              positions3d :=
                (if length (positions3d mol) = ?n
                 then butlast ((positions3d mol)[m_atomId := last (positions3d mol)])
                 else positions3d mol),
              atomicNumbers := butlast ((atomicNumbers mol)[m_atomId := last (atomicNumbers mol)]),
              bondPairs :=
                map (\<lambda>pr. if references (?n - 1) pr
                           then rewrite_endpoint (?n - 1) m_atomId pr
                           else pr) (bondPairs mol),
              graphDirty := True\<rparr>"
    have redo: "RemoveAtomCommand_redo m_atomId m_atomUid mol = Inr ?mol'"
      by (rule redo_inner_result [OF u inner last1 umax nmax])
    have len': "length (atomicNumbers ?mol') = ?n - 1" by simp
    have u': "m_atomUid < length (atomUniqueIds ?mol')" using u by simp
    have p': "m_atomId < length (atomicNumbers ?mol')" using inner by simp
    have in': "m_atomId \<in> set (atomUniqueIds ?mol')"
      using fk(1) by (simp add: set_update_memI)
    have umax': "length (atomUniqueIds ?mol') \<le> MaxIndex" using umax by simp
    have plen': "length (positions3d ?mol') \<noteq> Suc (length (atomicNumbers ?mol'))"
      using pos inner by (auto split: if_splits)
    have find': "findUniqueId (atomUniqueIds ?mol') m_atomId = ?k"
      using findUniqueId_update [OF notin fk(1)] by simp
    have ids_final: "((atomUniqueIds ?mol')
                       [findUniqueId (atomUniqueIds ?mol') m_atomId :=
                          length (atomicNumbers ?mol')])[m_atomUid := m_atomId] = ?ids"
    proof -
      have find'': "findUniqueId (?ids1[?k := m_atomId]) m_atomId = ?k"
        by (rule findUniqueId_update [OF notin fk(1)])
      have twice: "(?ids1[?k := m_atomId])[?k := ?n - 1] = ?ids1"
        by (rule list_update_twice_same [OF fk(2)])
      have "((atomUniqueIds ?mol')
               [findUniqueId (atomUniqueIds ?mol') m_atomId :=
                  length (atomicNumbers ?mol')])[m_atomUid := m_atomId] =
            ((?ids1[?k := m_atomId])
               [findUniqueId (?ids1[?k := m_atomId]) m_atomId := ?n - 1])
               [m_atomUid := m_atomId]"
        by simp
      also have "\<dots> = ((?ids1[?k := m_atomId])[?k := ?n - 1])[m_atomUid := m_atomId]"
        by (simp only: find'')
      also have "\<dots> = ?ids1[m_atomUid := m_atomId]"
        by (simp only: twice)
      also have "\<dots> = ?ids" by (rule ids_back)
      finally show ?thesis .
    qed
    have an_final: "swap_with_back m_atomId (atomicNumbers ?mol' @ [m_atomicNumber]) =
                    atomicNumbers mol"
      using swap_with_back_restore [OF inner] an ne by (simp add: last_conv_nth)
    have pos_final: "(if length (positions3d ?mol') = length (atomicNumbers ?mol')
                 then swap_with_back m_atomId (positions3d ?mol' @ [m_position3d])
                 else positions3d ?mol') = positions3d mol"
    proof (cases "length (positions3d mol) = ?n")
      case True
      then have "m_atomId < length (positions3d mol) - 1" using inner by simp
      from swap_with_back_restore [OF this] pos True
      show ?thesis by simp
    next
      case False
      with pos have "positions3d mol = []" "2 \<le> ?n" by simp_all
      then show ?thesis using False by auto
    qed
    have bonds_final: "map (\<lambda>pr. if references m_atomId pr
                           then rewrite_endpoint m_atomId (length (atomicNumbers ?mol')) pr
                           else pr) (bondPairs ?mol') = bondPairs mol"
    proof -
      have bp': "bondPairs ?mol' =
                   map (\<lambda>pr. if references (?n - 1) pr
                           then rewrite_endpoint (?n - 1) m_atomId pr
                           else pr) (bondPairs mol)"
        by simp
      show ?thesis
        unfolding bp' len' by (rule rewrite_map_back [OF nobond])
    qed
    have "RemoveAtomCommand_undo m_atomId m_atomUid m_atomicNumber m_position3d ?mol' =
            Inr (mol\<lparr>graphDirty := True\<rparr>)"
      unfolding undo_inner_result [OF u' p' in' umax' plen']
      unfolding ids_final an_final pos_final bonds_final
      by simp
    with redo show ?thesis by blast
  qed
qed






lemma store_loop_result:
  assumes "length vals = length ids" and "\<forall>a \<in> set ids. a < length arr"
  shows "\<exists>arr'. store_loop ids vals arr = Inr arr' \<and> length arr' = length arr \<and>
           (\<forall>k. k \<notin> set ids \<longrightarrow> arr' ! k = arr ! k) \<and>
           (distinct ids \<longrightarrow> (\<forall>i < length ids. arr' ! (ids ! i) = vals ! i))"
  using assms
proof (induction ids vals arr rule: store_loop.induct)
  case (1 vals arr)
  then show ?case by simp
next
  case (2 atomId ids arr)
  then show ?case by simp
next
  case (3 atomId ids v vals arr)
  from 3 have a: "atomId < length arr" by simp
  have "\<exists>arr'. store_loop ids vals (arr[atomId := v]) = Inr arr' \<and>
           length arr' = length (arr[atomId := v]) \<and>
           (\<forall>k. k \<notin> set ids \<longrightarrow> arr' ! k = arr[atomId := v] ! k) \<and>
           (distinct ids \<longrightarrow> (\<forall>i < length ids. arr' ! (ids ! i) = vals ! i))"
    using 3 by (intro "3.IH") auto
  then obtain arr' where r: "store_loop ids vals (arr[atomId := v]) = Inr arr'"
    and l: "length arr' = length arr"
    and out: "\<And>k. k \<notin> set ids \<Longrightarrow> arr' ! k = arr[atomId := v] ! k"
    and inn: "distinct ids \<Longrightarrow> (\<forall>i < length ids. arr' ! (ids ! i) = vals ! i)"
    by auto
  have "store_loop (atomId # ids) (v # vals) arr = Inr arr'" using a r by simp
  moreover have "\<forall>k. k \<notin> set (atomId # ids) \<longrightarrow> arr' ! k = arr ! k"
    using out by auto
  moreover have "\<forall>i < length (atomId # ids). arr' ! ((atomId # ids) ! i) = (v # vals) ! i"
    if d: "distinct (atomId # ids)"
  proof (intro allI impI)
    fix i assume i: "i < length (atomId # ids)"
    show "arr' ! ((atomId # ids) ! i) = (v # vals) ! i"
    proof (cases i)
      case 0
      with d a out [of atomId] show ?thesis by simp
    next
      case (Suc j)
      with i d inn show ?thesis by simp
    qed
  qed
  ultimately show ?case using l by blast
qed

lemma store_loop_roundtrip:
  assumes "length olds = length ids" and "length news = length ids" and "distinct ids"
    and "\<forall>i < length ids. ids ! i < length arr \<and> olds ! i = arr ! (ids ! i)"
  shows "\<exists>arr'. store_loop ids news arr = Inr arr' \<and> store_loop ids olds arr' = Inr arr"
proof -
  have inr: "\<forall>a \<in> set ids. a < length arr"
    using assms(4) by (auto simp: in_set_conv_nth)
  from store_loop_result [OF assms(2) inr] obtain arr1 where
    r1: "store_loop ids news arr = Inr arr1" and l1: "length arr1 = length arr"
    and out1: "\<And>k. k \<notin> set ids \<Longrightarrow> arr1 ! k = arr ! k"
    by blast
  have inr1: "\<forall>a \<in> set ids. a < length arr1" using inr l1 by simp
  from store_loop_result [OF assms(1) inr1] assms(3) obtain arr2 where
    r2: "store_loop ids olds arr1 = Inr arr2" and l2: "length arr2 = length arr1"
    and out2: "\<And>k. k \<notin> set ids \<Longrightarrow> arr2 ! k = arr1 ! k"
    and in2: "\<And>i. i < length ids \<Longrightarrow> arr2 ! (ids ! i) = olds ! i"
    by blast
  have "arr2 = arr"
  proof (rule nth_equalityI)
    show "length arr2 = length arr" using l1 l2 by simp
  next
    fix k assume "k < length arr2"
    show "arr2 ! k = arr ! k"
    proof (cases "k \<in> set ids")
      case True
      then obtain i where "i < length ids" "ids ! i = k" by (auto simp: in_set_conv_nth)
      with in2 [of i] assms(4) show ?thesis by auto
    next
      case False
      with out1 out2 show ?thesis by simp
    qed
  qed
  with r1 r2 show ?thesis by blast
qed

lemma store_roundtrip:
  assumes "i < length xs" and "old = xs ! i"
  shows "\<exists>xs'. store i new xs = Inr xs' \<and> store i old xs' = Inr xs"
  using assms by (simp add: store_def)

lemma first_match:
  assumes "a \<in> set ids"
  shows "length (takeWhile (\<lambda>x. x \<noteq> a) ids) < length ids \<and>
         ids ! length (takeWhile (\<lambda>x. x \<noteq> a) ids) = a"
proof -
  let ?k = "length (takeWhile (\<lambda>x. x \<noteq> a) ids)"
  have "takeWhile (\<lambda>x. x \<noteq> a) ids \<noteq> ids"
    using assms by (auto simp: takeWhile_eq_all_conv)
  then have lt: "?k < length ids"
    by (metis length_takeWhile_le le_neq_implies_less takeWhile_eq_take take_all_iff order_refl)
  from nth_length_takeWhile [OF lt] have "ids ! ?k = a" by simp
  with lt show ?thesis by simp
qed

lemma map_of_zip_update:
  assumes "distinct ids" and "length vals = length ids" and "i < length ids"
  shows "map_of (zip ids (vals[i := v])) = (map_of (zip ids vals))(ids ! i \<mapsto> v)"
proof
  fix b
  show "map_of (zip ids (vals[i := v])) b = ((map_of (zip ids vals))(ids ! i \<mapsto> v)) b"
  proof (cases "b \<in> set ids")
    case True
    then obtain j where j: "j < length ids" "ids ! j = b" by (auto simp: in_set_conv_nth)
    have l: "length ids = length (vals[i := v])" using assms(2) by simp
    have "map_of (zip ids (vals[i := v])) (ids ! j) = Some (vals[i := v] ! j)"
      using map_of_zip_nth [OF l assms(1)] j(1) assms(2) by simp
    moreover have "map_of (zip ids vals) (ids ! j) = Some (vals ! j)"
      using map_of_zip_nth [OF assms(2) [symmetric] assms(1)] j(1) assms(2) by simp
    moreover have "ids ! j = ids ! i \<longleftrightarrow> j = i"
      using assms(1,3) j(1) by (simp add: nth_eq_iff_index_eq)
    ultimately show ?thesis using j assms(2,3) by (auto simp: nth_list_update)
  next
    case False
    then have "map_of (zip ids (vals[i := v])) b = None" "map_of (zip ids vals) b = None"
      using assms(2) by (simp_all add: map_of_zip_is_None)
    moreover have "b \<noteq> ids ! i" using False assms(3) by auto
    ultimately show ?thesis by simp
  qed
qed

lemma map_of_zip_snoc:
  assumes "length vals = length ids"
  shows "map_of (zip (ids @ [a]) (vals @ [v])) = [a \<mapsto> v] ++ map_of (zip ids vals)"
  using assms by (simp add: map_of_append)

lemma merge_entries_result:
  assumes "length m_old = length m_ids" and "length m_new = length m_ids" and "distinct m_ids"
    and "length o_old = length o_ids" and "length o_new = length o_ids" and "distinct o_ids"
  shows "\<exists>ids olds news.
           merge_entries o_ids o_old o_new (m_ids, m_old, m_new) = Inr (ids, olds, news) \<and>
           ids = m_ids @ filter (\<lambda>a. a \<notin> set m_ids) o_ids \<and>
           length olds = length ids \<and> length news = length ids \<and> distinct ids \<and>
           take (length m_ids) olds = m_old \<and>
           map_of (zip ids olds) = map_of (zip o_ids o_old) ++ map_of (zip m_ids m_old) \<and>
           map_of (zip ids news) = map_of (zip m_ids m_new) ++ map_of (zip o_ids o_new)"
  using assms
proof (induction o_ids arbitrary: o_old o_new m_ids m_old m_new)
  case Nil
  then show ?case by simp
next
  case (Cons a rest)
  from Cons.prems obtain ov orest nv nrest where
    o: "o_old = ov # orest" "o_new = nv # nrest"
    and lo: "length orest = length rest" "length nrest = length rest"
    by (cases o_old; cases o_new) auto
  from Cons.prems have d: "distinct rest" "a \<notin> set rest" by simp_all
  note l = Cons.prems(1,2) and dm = Cons.prems(3)
  have rest_none: "map_of (zip rest orest) a = None" "map_of (zip rest nrest) a = None"
    using d(2) lo by (simp_all add: map_of_zip_is_None)
  show ?case
  proof (cases "a \<in> set m_ids")
    case False
    have step: "merge_entries (a # rest) o_old o_new (m_ids, m_old, m_new) =
                merge_entries rest orest nrest (m_ids @ [a], m_old @ [ov], m_new @ [nv])"
      using False o by simp
    have m_none: "map_of (zip m_ids m_old) a = None" "map_of (zip m_ids m_new) a = None"
      using False l by (simp_all add: map_of_zip_is_None)
    from Cons.IH [of "m_old @ [ov]" "m_ids @ [a]" "m_new @ [nv]" orest nrest] l dm False lo d
    obtain ids olds news where
      r: "merge_entries rest orest nrest (m_ids @ [a], m_old @ [ov], m_new @ [nv]) =
            Inr (ids, olds, news)"
      and i: "ids = (m_ids @ [a]) @ filter (\<lambda>b. b \<notin> set (m_ids @ [a])) rest"
      and ls: "length olds = length ids" "length news = length ids" "distinct ids"
      and tk: "take (length (m_ids @ [a])) olds = m_old @ [ov]"
      and mo: "map_of (zip ids olds) =
                 map_of (zip rest orest) ++ map_of (zip (m_ids @ [a]) (m_old @ [ov]))"
      and mn: "map_of (zip ids news) =
                 map_of (zip (m_ids @ [a]) (m_new @ [nv])) ++ map_of (zip rest nrest)"
      by auto
    have "filter (\<lambda>b. b \<notin> set (m_ids @ [a])) rest = filter (\<lambda>b. b \<notin> set m_ids) rest"
      using d(2) by (intro filter_cong) auto
    with i False have i': "ids = m_ids @ filter (\<lambda>b. b \<notin> set m_ids) (a # rest)" by simp
    have tk': "take (length m_ids) olds = m_old"
    proof -
      have "take (length m_ids) (take (length (m_ids @ [a])) olds) = take (length m_ids) olds"
        by simp
      with tk l show ?thesis by simp
    qed
    have mo': "map_of (zip ids olds) =
                 map_of (zip (a # rest) (ov # orest)) ++ map_of (zip m_ids m_old)"
      unfolding mo map_of_zip_snoc [OF l(1)]
      using m_none rest_none by (auto simp: map_add_def fun_eq_iff split: option.splits)
    have mn': "map_of (zip ids news) =
                 map_of (zip m_ids m_new) ++ map_of (zip (a # rest) (nv # nrest))"
      unfolding mn map_of_zip_snoc [OF l(2)]
      using m_none rest_none by (auto simp: map_add_def fun_eq_iff split: option.splits)
    have res: "merge_entries (a # rest) o_old o_new (m_ids, m_old, m_new) = Inr (ids, olds, news)"
      by (rule trans [OF step r])
    show ?thesis
      using res i' ls tk' mo' mn' unfolding o by blast
  next
    case True
    let ?k = "length (takeWhile (\<lambda>x. x \<noteq> a) m_ids)"
    from first_match [OF True] have k: "?k < length m_ids" "m_ids ! ?k = a" by simp_all
    have step: "merge_entries (a # rest) o_old o_new (m_ids, m_old, m_new) =
                merge_entries rest orest nrest (m_ids, m_old, m_new[?k := nv])"
      using True o k l by (simp add: Let_def)
    from Cons.IH [of m_old m_ids "m_new[?k := nv]" orest nrest] l dm lo d
    obtain ids olds news where
      r: "merge_entries rest orest nrest (m_ids, m_old, m_new[?k := nv]) = Inr (ids, olds, news)"
      and i: "ids = m_ids @ filter (\<lambda>b. b \<notin> set m_ids) rest"
      and ls: "length olds = length ids" "length news = length ids" "distinct ids"
      and tk: "take (length m_ids) olds = m_old"
      and mo: "map_of (zip ids olds) = map_of (zip rest orest) ++ map_of (zip m_ids m_old)"
      and mn: "map_of (zip ids news) =
                 map_of (zip m_ids (m_new[?k := nv])) ++ map_of (zip rest nrest)"
      by auto
    from i True have i': "ids = m_ids @ filter (\<lambda>b. b \<notin> set m_ids) (a # rest)" by simp
    have m_some: "map_of (zip m_ids m_old) a \<noteq> None"
      using True l by (simp add: map_of_zip_is_None)
    have mo': "map_of (zip ids olds) =
                 map_of (zip (a # rest) (ov # orest)) ++ map_of (zip m_ids m_old)"
      unfolding mo using m_some
      by (auto simp: map_add_def fun_eq_iff split: option.splits)
    have upd: "map_of (zip m_ids (m_new[?k := nv])) = (map_of (zip m_ids m_new))(a \<mapsto> nv)"
      using map_of_zip_update [OF dm l(2) k(1), of nv] k(2) by simp
    have mn': "map_of (zip ids news) =
                 map_of (zip m_ids m_new) ++ map_of (zip (a # rest) (nv # nrest))"
      unfolding mn upd using rest_none
      by (auto simp: map_add_def fun_eq_iff split: option.splits)
    have res: "merge_entries (a # rest) o_old o_new (m_ids, m_old, m_new) = Inr (ids, olds, news)"
      by (rule trans [OF step r])
    show ?thesis
      using res i' ls tk mo' mn' unfolding o by blast
  qed
qed

lemma merged_undo_values:
  assumes m: "merged m_ids m_old m_new o_ids o_old o_new ids olds news"
    and wf: "length m_old = length m_ids" "distinct m_ids"
            "length o_old = length o_ids" "distinct o_ids"
    and rng: "\<forall>a \<in> set ids. a < length arr"
  shows "\<exists>arr'. store_loop ids olds arr = Inr arr' \<and>
           (\<forall>i \<in> {0..<length m_ids}. arr' ! (m_ids ! i) = m_old ! i) \<and>
           (\<forall>j \<in> {0..<length o_ids}. o_ids ! j \<notin> set m_ids \<longrightarrow> arr' ! (o_ids ! j) = o_old ! j)"
proof -
  from m [unfolded merged_def] have ids: "ids = m_ids @ filter (\<lambda>a. a \<notin> set m_ids) o_ids"
    and l: "length olds = length ids" and d: "distinct ids"
    and tk: "take (length m_ids) olds = m_old"
    and mo: "map_of (zip ids olds) = map_of (zip o_ids o_old) ++ map_of (zip m_ids m_old)"
    by blast+
  from store_loop_result [OF l rng] d obtain arr' where
    r: "store_loop ids olds arr = Inr arr'"
    and v: "\<And>i. i < length ids \<Longrightarrow> arr' ! (ids ! i) = olds ! i"
    by blast
  have val: "arr' ! a = x" if "map_of (zip ids olds) a = Some x" for a x
  proof -
    from that have "a \<in> set ids" using l
      by (metis map_of_zip_is_None option.distinct(1))
    then obtain i where i: "i < length ids" "ids ! i = a" by (auto simp: in_set_conv_nth)
    have "map_of (zip ids olds) (ids ! i) = Some (olds ! i)"
      using map_of_zip_nth [OF l [symmetric] d] i(1) l by simp
    with that i have "x = olds ! i" by simp
    with v [OF i(1)] i(2) show ?thesis by simp
  qed
  have "arr' ! (m_ids ! i) = m_old ! i" if "i < length m_ids" for i
  proof -
    have "map_of (zip m_ids m_old) (m_ids ! i) = Some (m_old ! i)"
      using map_of_zip_nth [OF wf(1) [symmetric] wf(2)] that wf(1) by simp
    then have "map_of (zip ids olds) (m_ids ! i) = Some (m_old ! i)"
      unfolding mo by (simp add: map_add_Some_iff)
    then show ?thesis by (rule val)
  qed
  moreover have "arr' ! (o_ids ! j) = o_old ! j"
    if "j < length o_ids" "o_ids ! j \<notin> set m_ids" for j
  proof -
    have "map_of (zip o_ids o_old) (o_ids ! j) = Some (o_old ! j)"
      using map_of_zip_nth [OF wf(3) [symmetric] wf(4)] that(1) wf(3) by simp
    moreover have "map_of (zip m_ids m_old) (o_ids ! j) = None"
      using that(2) wf(1) by (simp add: map_of_zip_is_None)
    ultimately have "map_of (zip ids olds) (o_ids ! j) = Some (o_old ! j)"
      unfolding mo by (simp add: map_add_Some_iff)
    then show ?thesis by (rule val)
  qed
  ultimately show ?thesis using r by auto
qed

lemma merge_entries_merged:
  assumes "length m_old = length m_ids" and "length m_new = length m_ids" and "distinct m_ids"
    and "length o_old = length o_ids" and "length o_new = length o_ids" and "distinct o_ids"
  shows "\<exists>ids olds news.
           merge_entries o_ids o_old o_new (m_ids, m_old, m_new) = Inr (ids, olds, news) \<and>
           merged m_ids m_old m_new o_ids o_old o_new ids olds news"
  using merge_entries_result [OF assms] unfolding merged_def by blast

subsection \<open>The round trip of a command\<close>

text \<open>
  For the commands that work on the arrays directly and hold the current state as their
  "before" state, \<^verbatim>\<open>redo\<close> followed by \<^verbatim>\<open>undo\<close> gives back every array and both identifier
  tables exactly; only the graph-dirty flag stays set.
\<close>

lemma records_array_roundtrip:
  assumes "records_array ids olds news arr"
  shows "\<exists>arr'. store_loop ids news arr = Inr arr' \<and> store_loop ids olds arr' = Inr arr"
  using assms by (intro store_loop_roundtrip) (auto simp: records_array_def)

lemma undo_after_redo_restores:
  assumes "captured c mol"
  shows "\<exists>mol'. redo c mol = Inr mol' \<and>
           undo c mol' = Inr (mol\<lparr>graphDirty := graphDirty mol'\<rparr>)"
proof (cases c)
  case (RemoveAtomCommand a u n p)
  with assms have "removes_atom a u n p mol" by simp
  from RemoveAtomCommand_roundtrip [OF this] obtain mol' where
    r: "RemoveAtomCommand_redo a u mol = Inr mol'"
    and u: "RemoveAtomCommand_undo a u n p mol' = Inr (mol\<lparr>graphDirty := True\<rparr>)"
    by blast
  from r have "graphDirty mol' = True"
    by (auto simp: RemoveAtomCommand_redo_def Let_def split: if_splits sum.splits)
  with r u RemoveAtomCommand show ?thesis by simp
next
  case (SetAtomicNumbersCommand old new)
  with assms show ?thesis by simp
next
  case (SetAtomicNumberCommand a old new)
  with assms have "a < length (atomicNumbers mol)" "old = atomicNumbers mol ! a" by simp_all
  from store_roundtrip [OF this, of new] SetAtomicNumberCommand show ?thesis by auto
next
  case (SetPositions3dCommand old new)
  with assms show ?thesis by simp
next
  case (SetPosition3dCommand ids olds news)
  with assms have "records_array ids olds news (positions3d mol)" by simp
  from records_array_roundtrip [OF this] SetPosition3dCommand show ?thesis by auto
next
  case (SetAtomHybridizationCommand a old new)
  with assms have "a < length (hybridizations mol)" "old = hybridizations mol ! a" by simp_all
  from store_roundtrip [OF this, of new] SetAtomHybridizationCommand show ?thesis by auto
next
  case (SetAtomFormalChargeCommand a old new)
  with assms have "a < length (formalCharges mol)" "old = formalCharges mol ! a" by simp_all
  from store_roundtrip [OF this, of new] SetAtomFormalChargeCommand show ?thesis by auto
next
  case (SetAtomColorCommand a old new)
  with assms have "a < length (colors mol)" "old = colors mol ! a" by simp_all
  from store_roundtrip [OF this, of new] SetAtomColorCommand show ?thesis by auto
next
  case (SetForceVectorCommand ids olds news)
  with assms have "records_array ids olds news (forceVectors mol)" by simp
  from records_array_roundtrip [OF this] SetForceVectorCommand show ?thesis by auto
qed

lemma four_atoms_roundtrip:
  "\<exists>mol'. redo (RemoveAtomCommand 0 0 1 (0, 0, 0)) four_atoms = Inr mol' \<and>
      undo (RemoveAtomCommand 0 0 1 (0, 0, 0)) mol' =
        Inr (four_atoms\<lparr>graphDirty := graphDirty mol'\<rparr>)"
proof -
  have h: "captured (RemoveAtomCommand 0 0 1 (0, 0, 0)) four_atoms"
    by (simp add: removes_atom_def four_atoms_def Molecule_new_def atomCount_def MaxIndex_def
      references_def atLeastLessThanSuc)
  from undo_after_redo_restores [OF h] show ?thesis .
qed

text \<open>
  Evaluated on the model of \<^verbatim>\<open>Molecule::removeBond\<close> and \<^verbatim>\<open>Molecule::addBond\<close>:
  \<^verbatim>\<open>RemoveBondCommand::undo\<close> appends the bond, so after removing bond \<open>0\<close> of two the bonds
  come back in the other order and the removed bond has a new UniqueId.
\<close>

lemma RemoveBondCommand_undo_appends:
  "case RemoveBondCommand_redo 0 two_bonds of
      Inl e \<Rightarrow> False
    | Inr mol' \<Rightarrow>
       (case RemoveBondCommand_undo (0, 1) 1 mol' of
          Inl e \<Rightarrow> False
        | Inr mol'' \<Rightarrow>
            bondPairs two_bonds = [(0, 1), (1, 2)] \<and> bondPairs mol'' = [(1, 2), (0, 1)] \<and>
            bondOrders two_bonds = [1, 2] \<and> bondOrders mol'' = [2, 1] \<and>
            bondUniqueIds two_bonds = [0, 1] \<and> bondUniqueIds mol'' = [MaxIndex, 0, 1])"
  by (simp add: two_bonds_def Molecule_new_def RemoveBondCommand_redo_def
      RemoveBondCommand_undo_def Molecule_removeBond_def Molecule_addBond_def bondCount_def
      bondUniqueId_def findUniqueId_def makeBondPair_def Let_def MaxIndex_def)

subsection \<open>Merging, evaluated\<close>

text \<open>
  The only constructor of the two multi-atom commands records one atom, so every command
  object starts with parallel arrays and no atom twice; \<^verbatim>\<open>mergeWith\<close> is the only member
  that changes the arrays.
\<close>

lemma constructor_well_formed:
  "SetPosition3dCommand_new atomId oldPos newPos = SetPosition3dCommand [atomId] [oldPos] [newPos]"
  "SetForceVectorCommand_new atomId oldPos newPos = SetForceVectorCommand [atomId] [oldPos] [newPos]"
  "well_formed_entries [atomId] [oldPos] [newPos]"
  by (simp_all add: SetPosition3dCommand_new_def SetForceVectorCommand_new_def
      well_formed_entries_def)

lemma merge_undo_generic:
  assumes m: "well_formed_entries m_ids m_old m_new" and o: "well_formed_entries o_ids o_old o_new"
  shows "\<exists>ids olds news.
           merge_entries o_ids o_old o_new (m_ids, m_old, m_new) = Inr (ids, olds, news) \<and>
           well_formed_entries ids olds news \<and>
           merged m_ids m_old m_new o_ids o_old o_new ids olds news \<and>
           (\<forall>arr. (\<forall>a \<in> set ids. a < length arr) \<longrightarrow>
              (\<exists>arr'. store_loop ids olds arr = Inr arr' \<and>
                 (\<forall>i \<in> {0..<length m_ids}. arr' ! (m_ids ! i) = m_old ! i) \<and>
                 (\<forall>j \<in> {0..<length o_ids}.
                    o_ids ! j \<notin> set m_ids \<longrightarrow> arr' ! (o_ids ! j) = o_old ! j)))"
proof -
  from m o have wf: "length m_old = length m_ids" "length m_new = length m_ids" "distinct m_ids"
    "length o_old = length o_ids" "length o_new = length o_ids" "distinct o_ids"
    by (simp_all add: well_formed_entries_def)
  from merge_entries_merged [OF wf] obtain ids olds news where
    r: "merge_entries o_ids o_old o_new (m_ids, m_old, m_new) = Inr (ids, olds, news)"
    and mg: "merged m_ids m_old m_new o_ids o_old o_new ids olds news"
    by blast
  from mg have w: "well_formed_entries ids olds news"
    unfolding merged_def well_formed_entries_def by blast
  have u: "\<forall>arr. (\<forall>a \<in> set ids. a < length arr) \<longrightarrow>
              (\<exists>arr'. store_loop ids olds arr = Inr arr' \<and>
                 (\<forall>i \<in> {0..<length m_ids}. arr' ! (m_ids ! i) = m_old ! i) \<and>
                 (\<forall>j \<in> {0..<length o_ids}.
                    o_ids ! j \<notin> set m_ids \<longrightarrow> arr' ! (o_ids ! j) = o_old ! j))"
    using merged_undo_values [OF mg wf(1,3,4,6)] by blast
  from r w mg u show ?thesis by blast
qed

lemma merged_example:
  "mergeWith (SetPosition3dCommand [1, 2] [(0, 0, 0), (0, 1, 0)] [(1, 0, 0), (1, 1, 0)])
             (SetPosition3dCommand [2, 3] [(1, 1, 0), (0, 0, 3)] [(2, 1, 0), (0, 0, 4)]) =
     Inr (True, SetPosition3dCommand [1, 2, 3] [(0, 0, 0), (0, 1, 0), (0, 0, 3)]
                  [(1, 0, 0), (2, 1, 0), (0, 0, 4)])"
  by simp

text \<open>
  One atom dragged three times: the top command stays a single entry holding the position
  before the drag and the last position, and its \<^verbatim>\<open>undo\<close> writes the position before the
  drag.
\<close>

lemma drag_three_times:
  "case mergeWith (SetPosition3dCommand_new 1 (0, 0, 0) (1, 0, 0))
                  (SetPosition3dCommand_new 1 (1, 0, 0) (2, 0, 0)) of
     Inl e \<Rightarrow> False
   | Inr (merged1, top1) \<Rightarrow>
      (case mergeWith top1 (SetPosition3dCommand_new 1 (2, 0, 0) (3, 0, 0)) of
         Inl e \<Rightarrow> False
       | Inr (merged2, top2) \<Rightarrow>
           merged1 \<and> merged2 \<and> top2 = SetPosition3dCommand [1] [(0, 0, 0)] [(3, 0, 0)] \<and>
           (case undo top2 (four_atoms\<lparr>positions3d := [(0, 0, 0), (3, 0, 0), (2, 0, 0), (3, 0, 0)]\<rparr>) of
              Inl e \<Rightarrow> False
            | Inr mol' \<Rightarrow> positions3d mol' = [(0, 0, 0), (0, 0, 0), (2, 0, 0), (3, 0, 0)]))"
  by (simp add: SetPosition3dCommand_new_def)

subsection \<open>Three evaluations on the molecule of four atoms\<close>




subsection \<open>Claims about the undo commands\<close>

text \<open>
  C1. \<^verbatim>\<open>redo\<close> followed by \<^verbatim>\<open>undo\<close> of a \<^verbatim>\<open>RemoveAtomCommand\<close> does not restore the length
  of the positions array of a molecule with one atom and no coordinates: \<^verbatim>\<open>redo\<close> leaves
  the positions empty and empties the atomic numbers, \<^verbatim>\<open>undo\<close> then finds the two sizes
  equal and pushes the stored position, so the positions array has one element where it
  had none.
\<close>

theorem RemoveAtomCommand_undo_adds_position:
  "case redo (RemoveAtomCommand 0 0 6 Vector3_Zero) one_atom of
      Inl e \<Rightarrow> False
    | Inr mol' \<Rightarrow>
       (case undo (RemoveAtomCommand 0 0 6 Vector3_Zero) mol' of
          Inl e \<Rightarrow> False
        | Inr mol'' \<Rightarrow>
            atomicNumbers mol' = [] \<and> positions3d mol' = [] \<and>
            atomicNumbers mol'' = atomicNumbers one_atom \<and>
            atomUniqueIds mol'' = atomUniqueIds one_atom \<and>
            positions3d one_atom = [] \<and> positions3d mol'' = [Vector3_Zero])"
  by (simp add: one_atom_def Molecule_new_def RemoveAtomCommand_redo_def
      RemoveAtomCommand_undo_def atomCount_def resize_def MaxIndex_def)







text \<open>
  C8. Merging an incoming multi-atom position command into the top command of the same
  kind (both with parallel arrays and no atom twice, as the constructor and earlier merges
  leave them) succeeds and returns true. The recorded entries keep their places and their
  "before" values; an atom already recorded gets the incoming "after" value; an atom not
  yet recorded is appended with the incoming "before" and "after" values; the result is
  again well formed. One \<^verbatim>\<open>undo\<close> of the merged command then writes, for every atom of the
  top command, the "before" value the top command held, and for every appended atom the
  incoming "before" value. The same holds for the force-vector command.
\<close>

theorem mergeWith_accumulates:
  assumes "well_formed_entries m_ids m_old m_new" and "well_formed_entries o_ids o_old o_new"
  shows "(\<exists>ids olds news.
            mergeWith (SetPosition3dCommand m_ids m_old m_new)
                      (SetPosition3dCommand o_ids o_old o_new) =
              Inr (True, SetPosition3dCommand ids olds news) \<and>
            well_formed_entries ids olds news \<and>
            merged m_ids m_old m_new o_ids o_old o_new ids olds news \<and>
            (\<forall>mol. (\<forall>a \<in> set ids. a < length (positions3d mol)) \<longrightarrow>
               (\<exists>mol'. undo (SetPosition3dCommand ids olds news) mol = Inr mol' \<and>
                  (\<forall>i \<in> {0..<length m_ids}. positions3d mol' ! (m_ids ! i) = m_old ! i) \<and>
                  (\<forall>j \<in> {0..<length o_ids}.
                     o_ids ! j \<notin> set m_ids \<longrightarrow> positions3d mol' ! (o_ids ! j) = o_old ! j)))) \<and>
         (\<exists>ids olds news.
            mergeWith (SetForceVectorCommand m_ids m_old m_new)
                      (SetForceVectorCommand o_ids o_old o_new) =
              Inr (True, SetForceVectorCommand ids olds news) \<and>
            well_formed_entries ids olds news \<and>
            merged m_ids m_old m_new o_ids o_old o_new ids olds news \<and>
            (\<forall>mol. (\<forall>a \<in> set ids. a < length (forceVectors mol)) \<longrightarrow>
               (\<exists>mol'. undo (SetForceVectorCommand ids olds news) mol = Inr mol' \<and>
                  (\<forall>i \<in> {0..<length m_ids}. forceVectors mol' ! (m_ids ! i) = m_old ! i) \<and>
                  (\<forall>j \<in> {0..<length o_ids}.
                     o_ids ! j \<notin> set m_ids \<longrightarrow> forceVectors mol' ! (o_ids ! j) = o_old ! j))))"
proof -
  from assms(2) have ol: "length o_ids = length o_old" "length o_ids = length o_new"
    by (simp_all add: well_formed_entries_def)
  from merge_undo_generic [OF assms] obtain ids olds news where
    r: "merge_entries o_ids o_old o_new (m_ids, m_old, m_new) = Inr (ids, olds, news)"
    and w: "well_formed_entries ids olds news"
    and mg: "merged m_ids m_old m_new o_ids o_old o_new ids olds news"
    and u: "\<And>arr. (\<forall>a \<in> set ids. a < length arr) \<Longrightarrow>
              (\<exists>arr'. store_loop ids olds arr = Inr arr' \<and>
                 (\<forall>i \<in> {0..<length m_ids}. arr' ! (m_ids ! i) = m_old ! i) \<and>
                 (\<forall>j \<in> {0..<length o_ids}.
                    o_ids ! j \<notin> set m_ids \<longrightarrow> arr' ! (o_ids ! j) = o_old ! j))"
    by blast
  have p1: "mergeWith (SetPosition3dCommand m_ids m_old m_new)
                      (SetPosition3dCommand o_ids o_old o_new) =
              Inr (True, SetPosition3dCommand ids olds news)"
    using r ol by simp
  have p2: "\<exists>mol'. undo (SetPosition3dCommand ids olds news) mol = Inr mol' \<and>
                  (\<forall>i \<in> {0..<length m_ids}. positions3d mol' ! (m_ids ! i) = m_old ! i) \<and>
                  (\<forall>j \<in> {0..<length o_ids}.
                     o_ids ! j \<notin> set m_ids \<longrightarrow> positions3d mol' ! (o_ids ! j) = o_old ! j)"
    if "\<forall>a \<in> set ids. a < length (positions3d mol)" for mol
  proof -
    from u [OF that] obtain arr' where
      a: "store_loop ids olds (positions3d mol) = Inr arr'"
      and b: "\<forall>i \<in> {0..<length m_ids}. arr' ! (m_ids ! i) = m_old ! i"
      and c: "\<forall>j \<in> {0..<length o_ids}.
                    o_ids ! j \<notin> set m_ids \<longrightarrow> arr' ! (o_ids ! j) = o_old ! j"
      by blast
    have "undo (SetPosition3dCommand ids olds news) mol = Inr (mol\<lparr>positions3d := arr'\<rparr>)"
      using a by simp
    with b c show ?thesis by simp
  qed
  have f1: "mergeWith (SetForceVectorCommand m_ids m_old m_new)
                      (SetForceVectorCommand o_ids o_old o_new) =
              Inr (True, SetForceVectorCommand ids olds news)"
    using r ol by simp
  have f2: "\<exists>mol'. undo (SetForceVectorCommand ids olds news) mol = Inr mol' \<and>
                  (\<forall>i \<in> {0..<length m_ids}. forceVectors mol' ! (m_ids ! i) = m_old ! i) \<and>
                  (\<forall>j \<in> {0..<length o_ids}.
                     o_ids ! j \<notin> set m_ids \<longrightarrow> forceVectors mol' ! (o_ids ! j) = o_old ! j)"
    if "\<forall>a \<in> set ids. a < length (forceVectors mol)" for mol
  proof -
    from u [OF that] obtain arr' where
      a: "store_loop ids olds (forceVectors mol) = Inr arr'"
      and b: "\<forall>i \<in> {0..<length m_ids}. arr' ! (m_ids ! i) = m_old ! i"
      and c: "\<forall>j \<in> {0..<length o_ids}.
                    o_ids ! j \<notin> set m_ids \<longrightarrow> arr' ! (o_ids ! j) = o_old ! j"
      by blast
    have "undo (SetForceVectorCommand ids olds news) mol = Inr (mol\<lparr>forceVectors := arr'\<rparr>)"
      using a by simp
    with b c show ?thesis by simp
  qed
  show ?thesis
  proof (rule conjI)
    show "\<exists>ids olds news.
            mergeWith (SetPosition3dCommand m_ids m_old m_new)
                      (SetPosition3dCommand o_ids o_old o_new) =
              Inr (True, SetPosition3dCommand ids olds news) \<and>
            well_formed_entries ids olds news \<and>
            merged m_ids m_old m_new o_ids o_old o_new ids olds news \<and>
            (\<forall>mol. (\<forall>a \<in> set ids. a < length (positions3d mol)) \<longrightarrow>
               (\<exists>mol'. undo (SetPosition3dCommand ids olds news) mol = Inr mol' \<and>
                  (\<forall>i \<in> {0..<length m_ids}. positions3d mol' ! (m_ids ! i) = m_old ! i) \<and>
                  (\<forall>j \<in> {0..<length o_ids}.
                     o_ids ! j \<notin> set m_ids \<longrightarrow> positions3d mol' ! (o_ids ! j) = o_old ! j)))"
      using p1 w mg p2 by (intro exI [of _ ids] exI [of _ olds] exI [of _ news]) blast
  next
    show "\<exists>ids olds news.
            mergeWith (SetForceVectorCommand m_ids m_old m_new)
                      (SetForceVectorCommand o_ids o_old o_new) =
              Inr (True, SetForceVectorCommand ids olds news) \<and>
            well_formed_entries ids olds news \<and>
            merged m_ids m_old m_new o_ids o_old o_new ids olds news \<and>
            (\<forall>mol. (\<forall>a \<in> set ids. a < length (forceVectors mol)) \<longrightarrow>
               (\<exists>mol'. undo (SetForceVectorCommand ids olds news) mol = Inr mol' \<and>
                  (\<forall>i \<in> {0..<length m_ids}. forceVectors mol' ! (m_ids ! i) = m_old ! i) \<and>
                  (\<forall>j \<in> {0..<length o_ids}.
                     o_ids ! j \<notin> set m_ids \<longrightarrow> forceVectors mol' ! (o_ids ! j) = o_old ! j)))"
      using f1 w mg f2 by (intro exI [of _ ids] exI [of _ olds] exI [of _ news]) blast
  qed
qed

theorem mergeWith_accumulates_witness:
  "well_formed_entries [1, 2] [(0, 0, 0), (0, 1, 0)] [(1, 0, 0), (1, 1, 0) :: Vector3] \<and>
   well_formed_entries [2, 3] [(1, 1, 0), (0, 0, 3)] [(2, 1, 0), (0, 0, 4) :: Vector3] \<and>
   (\<exists>ids olds news.
      mergeWith (SetPosition3dCommand [1, 2] [(0, 0, 0), (0, 1, 0)] [(1, 0, 0), (1, 1, 0)])
                (SetPosition3dCommand [2, 3] [(1, 1, 0), (0, 0, 3)] [(2, 1, 0), (0, 0, 4)]) =
        Inr (True, SetPosition3dCommand ids olds news) \<and>
      well_formed_entries ids olds news \<and>
      merged [1, 2] [(0, 0, 0), (0, 1, 0)] [(1, 0, 0), (1, 1, 0)]
             [2, 3] [(1, 1, 0), (0, 0, 3)] [(2, 1, 0), (0, 0, 4)] ids olds news \<and>
      (\<forall>mol. (\<forall>a \<in> set ids. a < length (positions3d mol)) \<longrightarrow>
         (\<exists>mol'. undo (SetPosition3dCommand ids olds news) mol = Inr mol' \<and>
            (\<forall>i \<in> {0..<length [1, 2 :: nat]}.
               positions3d mol' ! ([1, 2] ! i) = [(0, 0, 0), (0, 1, 0)] ! i) \<and>
            (\<forall>j \<in> {0..<length [2, 3 :: nat]}.
               [2, 3] ! j \<notin> set [1, 2 :: nat] \<longrightarrow>
                 positions3d mol' ! ([2, 3] ! j) = [(1, 1, 0), (0, 0, 3)] ! j))))"
proof -
  have h1: "well_formed_entries [1, 2] [(0, 0, 0), (0, 1, 0)] [(1, 0, 0), (1, 1, 0) :: Vector3]"
    by (simp add: well_formed_entries_def)
  have h2: "well_formed_entries [2, 3] [(1, 1, 0), (0, 0, 3)] [(2, 1, 0), (0, 0, 4) :: Vector3]"
    by (simp add: well_formed_entries_def)
  from mergeWith_accumulates [OF h1 h2, THEN conjunct1] h1 h2
  show ?thesis by (intro conjI)
qed




end
